theory Spec2Isabelle
  imports Main
begin

section \<open>The order-management backend (server.js, second revision)\<close>

text \<open>
  The development embeds the request handlers of \<open>server.js\<close> (the revision with
  bearer tokens, payments and email verification) as functions on an explicit store.
  The SQLite database is a record of three tables, each a list of rows in insertion
  order; a handler takes the store and the request and returns the new store and the
  response. Request values are taken after the handler's own normalisation
  (\<open>toInt\<close> gives \<open>int option\<close>, with \<open>None\<close> for \<open>null\<close>).
\<close>

subsection \<open>Strings and paths\<close>

text \<open>
  A string is a list of code units below 256 (ASCII and Latin-1); a string with a code
  unit above that is outside the model. On these, \<open>toLowerCase\<close> maps A to Z and the
  capital letters from U+00C0 to U+00DE (U+00D7, the multiplication sign, apart) to the
  letter 32 above, and \<open>trim\<close> removes tab, line feed, vertical tab, form feed,
  carriage return, space and U+00A0 at both ends.
\<close>

definition to_lower_char :: "char \<Rightarrow> char" where
  "to_lower_char c =
     (let n = (of_char c :: nat) in
      if (65 \<le> n \<and> n \<le> 90) \<or> (192 \<le> n \<and> n \<le> 222 \<and> n \<noteq> 215) then char_of (n + 32)
      else c)"

definition toLowerCase :: "string \<Rightarrow> string" where
  "toLowerCase s = map to_lower_char s"

definition is_space :: "char \<Rightarrow> bool" where
  "is_space c =
     (c \<in> set [CHR '' '', CHR 0x09, CHR 0x0A, CHR 0x0B, CHR 0x0C, CHR 0x0D, CHR 0xA0])"

definition trim :: "string \<Rightarrow> string" where
  "trim s = rev (dropWhile is_space (rev (dropWhile is_space s)))"

text \<open>\<open>path.basename\<close>: the last segment of a path, trailing separators dropped.\<close>

definition basename :: "string \<Rightarrow> string" where
  "basename p =
     rev (takeWhile (\<lambda>c. c \<noteq> CHR ''/'') (dropWhile (\<lambda>c. c = CHR ''/'') (rev p)))"

text \<open>\<open>path.join\<close> of a directory and a plain file name.\<close>

definition path_join :: "string \<Rightarrow> string \<Rightarrow> string" where
  "path_join d f = d @ ''/'' @ f"

text \<open>
  The segments of a path, and the dotfile rule of the \<open>send\<close> library that serves files
  for \<open>express.static\<close> and \<open>res.sendFile\<close>: with the default option a path one of
  whose segments begins with a dot and is longer than the dot is treated as absent.
\<close>

fun split_path :: "string \<Rightarrow> string list" where
  "split_path [] = [[]]"
| "split_path (c # cs) =
     (if c = CHR ''/'' then [] # split_path cs
      else (case split_path cs of [] \<Rightarrow> [[c]] | s # ss \<Rightarrow> (c # s) # ss))"

definition dot_segment :: "string \<Rightarrow> bool" where
  "dot_segment s = (case s of c # d # ds \<Rightarrow> c = CHR ''.'' | _ \<Rightarrow> False)"

definition dotfile_path :: "string \<Rightarrow> bool" where
  "dotfile_path p = list_ex dot_segment (split_path p)"

definition uploadDir :: string where
  "uploadDir = ''uploads''"

definition previewDir :: string where
  "previewDir = path_join uploadDir ''previews''"


text \<open>
  Decimal rendering of an integer, as a template literal prints an order id (a number
  below 10^21 in magnitude; beyond that JavaScript prints an exponent).
\<close>

definition digit_char :: "nat \<Rightarrow> char" where
  "digit_char d = ''0123456789'' ! d"

fun nat_digits :: "nat \<Rightarrow> string" where
  "nat_digits n = (if n < 10 then [digit_char n] else nat_digits (n div 10) @ [digit_char (n mod 10)])"

declare nat_digits.simps [simp del]

definition int_str :: "int \<Rightarrow> string" where
  "int_str i = (if i < 0 then ''-'' @ nat_digits (nat (- i)) else nat_digits (nat i))"



subsection \<open>JavaScript truthiness\<close>

definition truthy_int :: "int option \<Rightarrow> bool" where
  "truthy_int v = (case v of None \<Rightarrow> False | Some n \<Rightarrow> n \<noteq> 0)"

definition truthy_str :: "string option \<Rightarrow> bool" where
  "truthy_str v = (case v of None \<Rightarrow> False | Some s \<Rightarrow> s \<noteq> [])"

subsection \<open>Tables\<close>

record user =
  u_id :: int
  u_name :: string
  u_email :: string
  u_password :: string
  u_role :: string
  u_country :: string
  u_approved :: bool

record order =
  o_id :: int
  title :: string
  description :: string
  client_id :: "int option"
  writer_id :: "int option"
  status :: "string option"
  submission_date :: "string option"
  expected_ready :: "string option"
  client_guide :: "string option"
  submission_file :: "string option"
  payment_status :: "string option"
  payment_ref :: "string option"
  amount :: "int option"

record verification =
  v_id :: int
  v_user_id :: int
  v_email :: string
  v_code :: string
  v_expires_at :: int
  v_used :: bool
  v_created_at :: int

text \<open>
  The store: the three tables and the AUTOINCREMENT counters (the largest id ever given
  out in each table). Rows are kept in insertion order, which is the order of the row
  ids and the order in which a query without ORDER BY reads them. A verification row
  carries its \<open>created_at\<close>, the CURRENT_TIMESTAMP of its insertion in whole seconds.
\<close>

record store =
  users :: "user list"
  orders :: "order list"
  email_verifications :: "verification list"
  users_seq :: int
  orders_seq :: int
  verifications_seq :: int

text \<open>The decoded bearer token (\<open>getUserFromRequest\<close>): the payload signed at login.\<close>

record token =
  t_id :: int
  t_role :: string
  t_email :: string

text \<open>
  Responses: a JSON or text message with its HTTP status; a file delivered by
  \<open>res.sendFile\<close>, with the headers set before; the 404 that Express's error handler
  answers when \<open>res.sendFile\<close> finds no file to deliver at the path; a file piped to
  the response; a file answered by an \<open>express.static\<close> middleware.
\<close>

datatype response =
    Json nat string
  | Text nat string
  | SendFile string "(string \<times> string) list"
  | SendFileNotFound string
  | Pipe string "(string \<times> string) list"
  | StaticFile string

definition status_of :: "response \<Rightarrow> nat" where
  "status_of r =
     (case r of Json c m \<Rightarrow> c | Text c m \<Rightarrow> c | SendFile p hs \<Rightarrow> 200
      | SendFileNotFound p \<Rightarrow> 404 | Pipe p hs \<Rightarrow> 200 | StaticFile p \<Rightarrow> 200)"

subsection \<open>Queries\<close>

definition order_by_id :: "store \<Rightarrow> int \<Rightarrow> order option" where
  "order_by_id st i = find (\<lambda>r. o_id r = i) (orders st)"

definition user_by_id :: "store \<Rightarrow> int \<Rightarrow> user option" where
  "user_by_id st i = find (\<lambda>u. u_id u = i) (users st)"

text \<open>\<open>SELECT id FROM orders WHERE writer_id = ? AND status = 'In Progress'\<close>\<close>

definition is_active_for :: "int \<Rightarrow> order \<Rightarrow> bool" where
  "is_active_for w r = (writer_id r = Some w \<and> status r = Some ''In Progress'')"

definition active_order :: "store \<Rightarrow> int \<Rightarrow> order option" where
  "active_order st w = find (is_active_for w) (orders st)"

text \<open>\<open>UPDATE orders SET ... WHERE id = ?\<close>: every row with that id is rewritten.\<close>

definition update_order :: "int \<Rightarrow> (order \<Rightarrow> order) \<Rightarrow> store \<Rightarrow> store" where
  "update_order i f st = st\<lparr>orders := map (\<lambda>r. if o_id r = i then f r else r) (orders st)\<rparr>"

text \<open>
  Foreign keys are enforced (\<open>PRAGMA foreign_keys = ON\<close>): a non-null \<open>client_id\<close> or
  \<open>writer_id\<close> written to a row must be the id of a stored user.
\<close>

definition fk_user :: "store \<Rightarrow> int option \<Rightarrow> bool" where
  "fk_user st v = (case v of None \<Rightarrow> True | Some i \<Rightarrow> user_by_id st i \<noteq> None)"

subsection \<open>Authentication middleware\<close>

definition authMiddleware :: "token option \<Rightarrow> response option" where
  "authMiddleware au = (case au of None \<Rightarrow> Some (Json 401 ''Unauthorized'') | Some _ \<Rightarrow> None)"

definition requireAdmin :: "token option \<Rightarrow> response option" where
  "requireAdmin au =
     (case au of
        None \<Rightarrow> Some (Json 403 ''Admin privileges required'')
      | Some t \<Rightarrow> if t_role t \<noteq> ''admin'' then Some (Json 403 ''Admin privileges required'')
                  else None)"

subsection \<open>Order handlers\<close>

text \<open>POST /api/orders\<close>

record create_req =
  cr_title :: string
  cr_description :: string
  cr_client_id :: "int option"
  cr_submission_date :: "string option"
  cr_expected_ready :: "string option"
  cr_guide :: "string option"

definition create_order :: "store \<Rightarrow> create_req \<Rightarrow> store \<times> response" where
  "create_order st rq =
     (let t = trim (cr_title rq); d = trim (cr_description rq) in
      if t = [] \<or> (d = [] \<and> cr_guide rq = None) \<or> cr_client_id rq = None
      then (st, Json 400 ''Missing required fields: title, client_id and (description or guide file)'')
      else if \<not> fk_user st (cr_client_id rq) then (st, Json 500 ''Failed to submit order'')
      else
        (st\<lparr>orders := orders st @
               [\<lparr>o_id = orders_seq st + 1, title = t, description = d,
                 client_id = cr_client_id rq, writer_id = None,
                 status = Some ''Pending Assignment'',
                 submission_date = (if truthy_str (cr_submission_date rq) then cr_submission_date rq else None),
                 expected_ready = (if truthy_str (cr_expected_ready rq) then cr_expected_ready rq else None),
                 client_guide = map_option (\<lambda>f. ''/uploads/'' @ basename f) (cr_guide rq),
                 submission_file = None, payment_status = Some ''unpaid'',
                 payment_ref = None, amount = Some 0\<rparr>],
             orders_seq := orders_seq st + 1\<rparr>,
         Json 200 ''Order submitted successfully''))"

text \<open>
  POST /api/assign: \<open>proceedAssign\<close> after the two middlewares and the id check.
  The messages are the handler's own.
\<close>

definition proceedAssign :: "store \<Rightarrow> int \<Rightarrow> int \<Rightarrow> store \<times> response" where
  "proceedAssign st orderId writerId =
     (if active_order st writerId \<noteq> None
      then (st, Json 400 ''Writer already has an active order'')
      else (case order_by_id st orderId of
        None \<Rightarrow> (st, Json 404 ''Order not found'')
      | Some r \<Rightarrow>
          if truthy_int (writer_id r) then (st, Json 400 ''Order already assigned'')
          else if status r \<noteq> Some ''Pending Assignment''
          then (st, Json 400 ''Order not available for assignment'')
          else if \<not> fk_user st (Some writerId) then (st, Json 500 ''Failed to assign order'')
          else (update_order orderId
                  (\<lambda>r. r\<lparr>writer_id := Some writerId, status := Some ''In Progress''\<rparr>) st,
                Json 200 ''Order assigned successfully'')))"

definition assign :: "store \<Rightarrow> token option \<Rightarrow> int option \<Rightarrow> int option \<Rightarrow> store \<times> response" where
  "assign st au orderId writerId =
     (case authMiddleware au of Some e \<Rightarrow> (st, e) | None \<Rightarrow>
     (case requireAdmin au of Some e \<Rightarrow> (st, e) | None \<Rightarrow>
     (case (orderId, writerId) of
        (Some i, Some w) \<Rightarrow> proceedAssign st i w
      | _ \<Rightarrow> (st, Json 400 ''Missing or invalid order or writer ID''))))"

text \<open>POST /api/claim: the writer is the caller.\<close>

definition claim :: "store \<Rightarrow> token option \<Rightarrow> int option \<Rightarrow> store \<times> response" where
  "claim st au orderId =
     (case authMiddleware au of Some e \<Rightarrow> (st, e) | None \<Rightarrow>
     (case au of None \<Rightarrow> (st, Json 403 ''Writer privileges required'') | Some t \<Rightarrow>
      if t_role t \<noteq> ''writer'' then (st, Json 403 ''Writer privileges required'')
      else (case orderId of
        None \<Rightarrow> (st, Json 400 ''Missing orderId or invalid writer'')
      | Some i \<Rightarrow>
          let writerId = t_id t in
          if active_order st writerId \<noteq> None
          then (st, Json 400 ''You already have an active order'')
          else (case order_by_id st i of
            None \<Rightarrow> (st, Json 404 ''Order not found'')
          | Some r \<Rightarrow>
              if truthy_int (writer_id r) then (st, Json 400 ''Order already assigned'')
              else if status r \<noteq> Some ''Pending Assignment''
              then (st, Json 400 ''Order not available for assignment'')
              else if \<not> fk_user st (Some writerId) then (st, Json 500 ''Failed to claim order'')
              else (update_order i
                      (\<lambda>r. r\<lparr>writer_id := Some writerId, status := Some ''In Progress''\<rparr>) st,
                    Json 200 ''Order claimed successfully'')))))"

text \<open>POST /api/update-status\<close>

definition update_status :: "store \<Rightarrow> int option \<Rightarrow> string option \<Rightarrow> store \<times> response" where
  "update_status st orderId new_status =
     (case orderId of
        None \<Rightarrow> (st, Json 400 ''Missing orderId or status'')
      | Some i \<Rightarrow>
          if \<not> truthy_str new_status then (st, Json 400 ''Missing orderId or status'')
          else (update_order i (\<lambda>r. r\<lparr>status := new_status\<rparr>) st,
                Json 200 ''Status updated successfully''))"

text \<open>
  POST /api/submit-work/:orderId. The preview conversion started after the update runs
  detached from the request and touches only the disk.
\<close>

definition submit_work :: "store \<Rightarrow> int option \<Rightarrow> string option \<Rightarrow> store \<times> response" where
  "submit_work st orderId file =
     (case orderId of
        None \<Rightarrow> (st, Json 400 ''Invalid order id'')
      | Some i \<Rightarrow>
          (case file of
             None \<Rightarrow> (st, Json 400 ''No file uploaded'')
           | Some f \<Rightarrow>
               (update_order i
                  (\<lambda>r. r\<lparr>submission_file := Some (''/uploads/'' @ basename f),
                         status := Some ''Submitted''\<rparr>) st,
                Json 200 ''Work submitted successfully'')))"

text \<open>POST /api/send-to-client/:orderId\<close>

definition send_to_client :: "store \<Rightarrow> token option \<Rightarrow> int option \<Rightarrow> store \<times> response" where
  "send_to_client st au orderId =
     (case authMiddleware au of Some e \<Rightarrow> (st, e) | None \<Rightarrow>
     (case requireAdmin au of Some e \<Rightarrow> (st, e) | None \<Rightarrow>
     (case orderId of
        None \<Rightarrow> (st, Json 400 ''Invalid order id'')
      | Some i \<Rightarrow>
          (update_order i (\<lambda>r. r\<lparr>status := Some ''Delivered to Client''\<rparr>) st,
           Json 200 ''Work delivered to client successfully''))))"

text \<open>DELETE /api/orders/:id\<close>

definition delete_order :: "store \<Rightarrow> token option \<Rightarrow> int option \<Rightarrow> store \<times> response" where
  "delete_order st au orderId =
     (case authMiddleware au of Some e \<Rightarrow> (st, e) | None \<Rightarrow>
     (case requireAdmin au of Some e \<Rightarrow> (st, e) | None \<Rightarrow>
     (case orderId of
        None \<Rightarrow> (st, Json 400 ''Invalid id'')
      | Some i \<Rightarrow>
          (st\<lparr>orders := filter (\<lambda>r. o_id r \<noteq> i) (orders st)\<rparr>,
           Json 200 ''Order deleted successfully''))))"

text \<open>
  PUT /api/orders/:id. The body is read field by field: \<open>None\<close> when the body has no
  such property, \<open>Some None\<close> for a JSON null, \<open>Some (Some v)\<close> for a value.
\<close>

record order_patch =
  p_title :: "string option option"
  p_description :: "string option option"
  p_client_id :: "int option option"
  p_writer_id :: "int option option"
  p_status :: "string option option"
  p_amount :: "int option option"
  p_payment_status :: "string option option"
  p_payment_ref :: "string option option"
  p_submission_date :: "string option option"
  p_expected_ready :: "string option option"

definition patch_empty :: "order_patch \<Rightarrow> bool" where
  "patch_empty p =
     (p_title p = None \<and> p_description p = None \<and> p_client_id p = None \<and>
      p_writer_id p = None \<and> p_status p = None \<and> p_amount p = None \<and>
      p_payment_status p = None \<and> p_payment_ref p = None \<and>
      p_submission_date p = None \<and> p_expected_ready p = None)"

definition set_col :: "'a option \<Rightarrow> 'a \<Rightarrow> 'a" where
  "set_col v old = (case v of None \<Rightarrow> old | Some x \<Rightarrow> x)"

definition set_text :: "string option option \<Rightarrow> string \<Rightarrow> string" where
  "set_text v old = (case v of Some (Some x) \<Rightarrow> x | _ \<Rightarrow> old)"

definition apply_patch :: "order_patch \<Rightarrow> order \<Rightarrow> order" where
  "apply_patch p r =
     r\<lparr>title := set_text (p_title p) (title r),
       description := set_text (p_description p) (description r),
       client_id := set_col (p_client_id p) (client_id r),
       writer_id := set_col (p_writer_id p) (writer_id r),
       status := set_col (p_status p) (status r),
       amount := set_col (p_amount p) (amount r),
       payment_status := set_col (p_payment_status p) (payment_status r),
       payment_ref := set_col (p_payment_ref p) (payment_ref r),
       submission_date := set_col (p_submission_date p) (submission_date r),
       expected_ready := set_col (p_expected_ready p) (expected_ready r)\<rparr>"

text \<open>
  The constraints of the table that the UPDATE can break: \<open>title\<close> and \<open>description\<close>
  are NOT NULL, \<open>client_id\<close> and \<open>writer_id\<close> are foreign keys.
\<close>

definition patch_violates :: "store \<Rightarrow> order_patch \<Rightarrow> bool" where
  "patch_violates st p =
     (p_title p = Some None \<or> p_description p = Some None \<or>
      (case p_client_id p of Some v \<Rightarrow> \<not> fk_user st v | None \<Rightarrow> False) \<or>
      (case p_writer_id p of Some v \<Rightarrow> \<not> fk_user st v | None \<Rightarrow> False))"

definition admin_update_order ::
  "store \<Rightarrow> token option \<Rightarrow> int option \<Rightarrow> order_patch \<Rightarrow> store \<times> response" where
  "admin_update_order st au orderId p =
     (case authMiddleware au of Some e \<Rightarrow> (st, e) | None \<Rightarrow>
     (case requireAdmin au of Some e \<Rightarrow> (st, e) | None \<Rightarrow>
     (case orderId of
        None \<Rightarrow> (st, Json 400 ''Invalid id'')
      | Some i \<Rightarrow>
          if patch_empty p then (st, Json 400 ''No valid fields to update'')
          else if order_by_id st i \<noteq> None \<and> patch_violates st p
          then (st, Json 500 ''Failed to update order'')
          else (update_order i (apply_patch p) st, Json 200 ''Order updated''))))"

subsection \<open>Payments\<close>

definition markOrderPaid :: "store \<Rightarrow> int \<Rightarrow> string \<Rightarrow> store" where
  "markOrderPaid st orderId paymentRef =
     update_order orderId
       (\<lambda>r. r\<lparr>payment_status := Some ''paid'', payment_ref := Some paymentRef,
              status := Some ''Delivered to Client''\<rparr>) st"

text \<open>
  POST /api/payments/initiate. The environment decides the branch: no consumer key
  (simulation), a key with the other credentials missing, or the full Daraja setup.
  The generated reference and the outcome of the STK push come from outside.
\<close>

datatype mpesa_env = NoMpesa | MpesaIncomplete | Mpesa

record initiate_req =
  ir_orderId :: "int option"
  ir_phoneNumber :: string
  ir_amount :: int
  ir_paymentRef :: string
  ir_stk_ok :: bool

definition payments_initiate :: "mpesa_env \<Rightarrow> store \<Rightarrow> initiate_req \<Rightarrow> store \<times> response" where
  "payments_initiate env st rq =
     (case ir_orderId rq of
        None \<Rightarrow> (st, Json 400 ''Missing orderId or phoneNumber'')
      | Some i \<Rightarrow>
          if trim (ir_phoneNumber rq) = [] then (st, Json 400 ''Missing orderId or phoneNumber'')
          else if order_by_id st i = None then (st, Json 404 ''Order not found'')
          else
            (let pending = update_order i
                   (\<lambda>r. r\<lparr>payment_status := Some ''pending'',
                          payment_ref := Some (ir_paymentRef rq),
                          amount := Some (ir_amount rq)\<rparr>) st
             in case env of
                  NoMpesa \<Rightarrow> (pending, Json 200 ''Simulated payment initiated'')
                | MpesaIncomplete \<Rightarrow>
                    (st, Json 500 ''MPesa credentials not fully configured on server'')
                | Mpesa \<Rightarrow>
                    if ir_stk_ok rq then (pending, Json 200 ''STK push initiated'')
                    else (pending, Json 502 ''Failed to initiate STK push'')))"

text \<open>
  POST /api/payments/callback. A Daraja callback carries the result code (after
  \<open>Number(cb.ResultCode || -1)\<close>), the checkout id (after \<open>String(... || '')\<close>) and
  the result parameters with their values after \<open>toInt\<close>; a generic callback carries
  \<open>orderId\<close> and \<open>payment_ref\<close>.
\<close>

datatype callback_body =
    StkCallback int string "(string \<times> int option) list"
  | GenericCallback "int option" "string option"

definition found_order :: "int option \<Rightarrow> (string \<times> int option) list \<Rightarrow> int option" where
  "found_order qOrder ps =
     (if truthy_int qOrder then qOrder
      else fold (\<lambda>(k, v) acc. if k = ''AccountReference'' then v else acc) ps qOrder)"

definition payments_callback ::
  "store \<Rightarrow> int option \<Rightarrow> callback_body \<Rightarrow> int \<Rightarrow> store \<times> response" where
  "payments_callback st qOrder body now =
     (case body of
        StkCallback resultCode checkoutId ps \<Rightarrow>
          (case found_order qOrder ps of
             Some oid \<Rightarrow>
               if resultCode = 0 \<and> oid \<noteq> 0
               then (markOrderPaid st oid
                       (if checkoutId \<noteq> [] then checkoutId else ''MPESA-CB-'' @ int_str now),
                     Json 200 ''Payment confirmed'')
               else (st, Json 200 ''Callback processed'')
           | None \<Rightarrow> (st, Json 200 ''Callback processed''))
      | GenericCallback orderId pref \<Rightarrow>
          (case orderId of
             None \<Rightarrow> (st, Json 400 ''Missing orderId or payment_ref'')
           | Some oid \<Rightarrow>
               (case pref of
                  None \<Rightarrow> (st, Json 400 ''Missing orderId or payment_ref'')
                | Some ref \<Rightarrow>
                    if ref = [] then (st, Json 400 ''Missing orderId or payment_ref'')
                    else (markOrderPaid st oid ref, Json 200 ''Payment confirmed''))))"

subsection \<open>Email verification\<close>

definition user_by_email :: "store \<Rightarrow> string \<Rightarrow> user option" where
  "user_by_email st e = find (\<lambda>u. u_email u = e) (users st)"

text \<open>
  POST /api/resend-verification. The code comes from \<open>generateCode\<close>, \<open>now\<close> from
  \<open>Date.now()\<close> (milliseconds) and \<open>at\<close> from the database clock at the INSERT
  (seconds).
\<close>

definition resend_verification ::
  "store \<Rightarrow> string \<Rightarrow> string \<Rightarrow> int \<Rightarrow> int \<Rightarrow> store \<times> response" where
  "resend_verification st email code now at =
     (if email = [] then (st, Json 400 ''Missing email'')
      else
        (let emailLower = toLowerCase (trim email) in
         case user_by_email st emailLower of
           None \<Rightarrow> (st, Json 404 ''Email not found'')
         | Some u \<Rightarrow>
             if u_approved u then (st, Json 400 ''Email already verified'')
             else
               (st\<lparr>email_verifications := email_verifications st @
                      [\<lparr>v_id = verifications_seq st + 1, v_user_id = u_id u,
                        v_email = emailLower, v_code = code,
                        v_expires_at = now + 15 * 60 * 1000, v_used = False,
                        v_created_at = at\<rparr>],
                    verifications_seq := verifications_seq st + 1\<rparr>,
                Json 200 ''Verification code resent'')))"

text \<open>
  The query of /api/verify-email: the unused rows of the email whose user exists,
  \<open>ORDER BY v.created_at DESC LIMIT 1\<close>. The first row of the result is one with the
  greatest \<open>created_at\<close>; among rows inserted in the same second SQL leaves the order
  open, and SQLite's sorter gives them in table order, so the oldest of them comes first.
\<close>

fun latest :: "verification list \<Rightarrow> verification option" where
  "latest [] = None"
| "latest (v # vs) =
     (case latest vs of
        None \<Rightarrow> Some v
      | Some b \<Rightarrow> if v_created_at v < v_created_at b then Some b else Some v)"

definition is_candidate :: "store \<Rightarrow> string \<Rightarrow> verification \<Rightarrow> bool" where
  "is_candidate st emailLower v =
     (v_email v = emailLower \<and> \<not> v_used v \<and> user_by_id st (v_user_id v) \<noteq> None)"

definition active_verification :: "store \<Rightarrow> string \<Rightarrow> verification option" where
  "active_verification st emailLower =
     latest (filter (is_candidate st emailLower) (email_verifications st))"

definition mark_used :: "int \<Rightarrow> store \<Rightarrow> store" where
  "mark_used vid st =
     st\<lparr>email_verifications :=
          map (\<lambda>v. if v_id v = vid then v\<lparr>v_used := True\<rparr> else v) (email_verifications st)\<rparr>"

definition approve :: "int \<Rightarrow> store \<Rightarrow> store" where
  "approve uid st =
     st\<lparr>users := map (\<lambda>u. if u_id u = uid then u\<lparr>u_approved := True\<rparr> else u) (users st)\<rparr>"

definition verify_email :: "store \<Rightarrow> string \<Rightarrow> string \<Rightarrow> int \<Rightarrow> store \<times> response" where
  "verify_email st email code now =
     (if email = [] \<or> code = [] then (st, Json 400 ''Missing email or code'')
      else
        (case active_verification st (toLowerCase (trim email)) of
           None \<Rightarrow> (st, Json 400 ''No active verification found'')
         | Some row \<Rightarrow>
             if now > v_expires_at row then (st, Json 400 ''Code expired'')
             else if v_code row \<noteq> trim code then (st, Json 400 ''Invalid code'')
             else (approve (v_user_id row) (mark_used (v_id row) st),
                   Json 200 ''Email verified. You may now log in.'')))"

subsection \<open>The document server\<close>

text \<open>
  The disk: the paths of the files that exist, written without empty, \<open>.\<close> or
  \<open>..\<close> segments. Directories are not listed.
\<close>

type_synonym disk = "string list"

definition existsSync :: "disk \<Rightarrow> string \<Rightarrow> bool" where
  "existsSync fs p = (p \<in> set fs)"

text \<open>
  \<open>res.sendFile(path)\<close> delivers the file when it exists and the path has no dotfile
  segment; otherwise the error goes to Express's error handler, which answers 404. The
  server's directory is taken to have no dotfile segment of its own.
\<close>

definition sendable :: "disk \<Rightarrow> string \<Rightarrow> bool" where
  "sendable fs p = (existsSync fs p \<and> \<not> dotfile_path p)"

definition sendFile :: "disk \<Rightarrow> string \<Rightarrow> (string \<times> string) list \<Rightarrow> response" where
  "sendFile fs p hs = (if sendable fs p then SendFile p hs else SendFileNotFound p)"

text \<open>
  The row that /api/preview reads:
  \<open>SELECT submission_file, client_id, writer_id, status FROM orders WHERE id = ?\<close>.
  The row object has these four properties and no other, so the handler's
  \<open>order.payment_status\<close> reads a property that is not there: \<open>undefined\<close>.
\<close>

record submission_row =
  sr_submission_file :: "string option"
  sr_client_id :: "int option"
  sr_writer_id :: "int option"
  sr_status :: "string option"

definition select_submission :: "order \<Rightarrow> submission_row" where
  "select_submission r =
     \<lparr>sr_submission_file = submission_file r, sr_client_id = client_id r,
      sr_writer_id = writer_id r, sr_status = status r\<rparr>"

definition sr_payment_status :: "submission_row \<Rightarrow> string option" where
  "sr_payment_status row = None"

definition preview_headers :: "(string \<times> string) list" where
  "preview_headers =
     [(''Content-Type'', ''application/pdf''), (''Content-Disposition'', ''inline''),
      (''X-Content-Type-Options'', ''nosniff''), (''Cache-Control'', ''no-store'')]"

definition stream_headers :: "(string \<times> string) list" where
  "stream_headers =
     [(''Content-Type'', ''application/octet-stream''), (''Content-Disposition'', ''inline''),
      (''X-Content-Type-Options'', ''nosniff''), (''Cache-Control'', ''no-store''),
      (''Accept-Ranges'', ''none'')]"

text \<open>
  GET /api/preview/:orderId. The requester is the token's id, or the \<open>userId\<close> query
  parameter when the request carries no valid token.
\<close>

record preview_req =
  pq_orderId :: "int option"
  pq_authUser :: "token option"
  pq_userId :: "int option"

definition requester_of :: "preview_req \<Rightarrow> int option" where
  "requester_of rq = (case pq_authUser rq of Some t \<Rightarrow> Some (t_id t) | None \<Rightarrow> pq_userId rq)"

definition preview :: "disk \<Rightarrow> store \<Rightarrow> preview_req \<Rightarrow> response" where
  "preview fs st rq =
     (case pq_orderId rq of
        None \<Rightarrow> Json 400 ''Invalid order id''
      | Some orderId \<Rightarrow>
     (case requester_of rq of
        None \<Rightarrow> Json 403 ''Access denied''
      | Some requesterId \<Rightarrow>
          if requesterId = 0 then Json 403 ''Access denied''
          else
     (case map_option select_submission (order_by_id st orderId) of
        None \<Rightarrow> Json 404 ''Submission not found''
      | Some row \<Rightarrow>
     (case sr_submission_file row of
        None \<Rightarrow> Json 404 ''Submission not found''
      | Some sf \<Rightarrow>
          if sf = [] then Json 404 ''Submission not found''
          else
     (case user_by_id st requesterId of
        None \<Rightarrow> Json 403 ''Access denied''
      | Some u \<Rightarrow>
          (let filePath = path_join uploadDir (basename sf) in
           if u_role u = ''admin'' \<or> Some (u_id u) = sr_writer_id row then sendFile fs filePath []
           else if Some (u_id u) = sr_client_id row then
             (if (case sr_payment_status row of
                    None \<Rightarrow> False
                  | Some ps \<Rightarrow> ps \<noteq> [] \<and> toLowerCase ps = ''paid'')
              then sendFile fs filePath []
              else
                (let previewFile = path_join previewDir (int_str orderId @ ''.pdf'') in
                 if existsSync fs previewFile then sendFile fs previewFile preview_headers
                 else if existsSync fs filePath then Pipe filePath stream_headers
                 else Json 404 ''File not found''))
           else Json 403 ''Access denied''))))))"






subsection \<open>Operations on the store\<close>

text \<open>
  The requests that write to the orders table, as one type. The simulation's timer
  calls \<open>markOrderPaid\<close> by itself, four seconds after /api/payments/initiate
  answered; it answers nobody, and its step carries an empty 200.
\<close>

datatype op =
    OpCreate create_req
  | OpAssign "token option" "int option" "int option"
  | OpClaim "token option" "int option"
  | OpUpdateStatus "int option" "string option"
  | OpSubmitWork "int option" "string option"
  | OpSendToClient "token option" "int option"
  | OpAdminUpdate "token option" "int option" order_patch
  | OpInitiate mpesa_env initiate_req
  | OpSimulatedConfirm int string
  | OpCallback "int option" callback_body int
  | OpDelete "token option" "int option"

fun step :: "store \<Rightarrow> op \<Rightarrow> store \<times> response" where
  "step st (OpCreate rq) = create_order st rq"
| "step st (OpAssign au i w) = assign st au i w"
| "step st (OpClaim au i) = claim st au i"
| "step st (OpUpdateStatus i s) = update_status st i s"
| "step st (OpSubmitWork i f) = submit_work st i f"
| "step st (OpSendToClient au i) = send_to_client st au i"
| "step st (OpAdminUpdate au i p) = admin_update_order st au i p"
| "step st (OpInitiate env rq) = payments_initiate env st rq"
| "step st (OpSimulatedConfirm i ref) = (markOrderPaid st i ref, Json 200 [])"
| "step st (OpCallback q body now) = payments_callback st q body now"
| "step st (OpDelete au i) = delete_order st au i"

text \<open>
  A run serves requests one after the other, each handler to its end before the next
  begins. It is one of the schedules of the server; requests that overlap are the
  subject of \<open>play\<close> below.
\<close>

definition run :: "store \<Rightarrow> op list \<Rightarrow> store" where
  "run st ops = foldl (\<lambda>s x. fst (step s x)) st ops"

text \<open>The HTTP statuses answered along a run.\<close>

fun answers :: "store \<Rightarrow> op list \<Rightarrow> nat list" where
  "answers st [] = []"
| "answers st (x # xs) = status_of (snd (step st x)) # answers (fst (step st x)) xs"

text \<open>The operations that overwrite \<open>status\<close> or \<open>writer_id\<close> with a value of the caller's.\<close>

fun overwrites_status :: "op \<Rightarrow> bool" where
  "overwrites_status (OpUpdateStatus i s) = True"
| "overwrites_status (OpAdminUpdate au i p) = True"
| "overwrites_status x = False"

text \<open>The operations that overwrite \<open>payment_status\<close> with something other than \<open>paid\<close>.\<close>

fun overwrites_payment :: "op \<Rightarrow> bool" where
  "overwrites_payment (OpInitiate env rq) = True"
| "overwrites_payment (OpAdminUpdate au i p) = True"
| "overwrites_payment x = False"

subsection \<open>Overlapping requests\<close>

text \<open>
  A handler reaches the database through \<open>db.get\<close> and \<open>db.run\<close>, which return at
  once and call back later, with no transaction around them: between two statements of
  one request the statements of other requests can run. Assign and claim make three
  statements (the active-order query, the order query, the UPDATE), so a request of
  theirs is in flight between them: a pending request, which has passed the first query
  (\<open>tk_checked\<close> false) or both (\<open>tk_checked\<close> true). Every other handler of the orders
  table writes with a single statement and is taken whole (/api/payments/initiate reads
  the order before its UPDATE, and an UPDATE of a missing row changes nothing, so its
  effect on the store is that of the whole handler at one of the two moments).
\<close>

record taking =
  tk_writer :: int
  tk_order :: int
  tk_checked :: bool
  tk_claim :: bool

record server =
  db :: store
  takings :: "taking list"

datatype event =
    BeginAssign "token option" "int option" "int option"
  | BeginClaim "token option" "int option"
  | Resume nat
  | Whole op

definition drop_taking :: "nat \<Rightarrow> taking list \<Rightarrow> taking list" where
  "drop_taking k ts = take k ts @ drop (Suc k) ts"

text \<open>The first statement of assign and claim: the active-order query and its callback.\<close>

definition begin_take :: "server \<Rightarrow> int \<Rightarrow> int \<Rightarrow> bool \<Rightarrow> server \<times> response option" where
  "begin_take srv orderId writerId is_claim =
     (if active_order (db srv) writerId \<noteq> None
      then (srv, Some (Json 400 (if is_claim then ''You already have an active order''
                               else ''Writer already has an active order'')))
      else (srv\<lparr>takings := takings srv @
                 [\<lparr>tk_writer = writerId, tk_order = orderId, tk_checked = False,
                   tk_claim = is_claim\<rparr>]\<rparr>, None))"

definition begin_assign ::
  "server \<Rightarrow> token option \<Rightarrow> int option \<Rightarrow> int option \<Rightarrow> server \<times> response option" where
  "begin_assign srv au orderId writerId =
     (case authMiddleware au of Some e \<Rightarrow> (srv, Some e) | None \<Rightarrow>
     (case requireAdmin au of Some e \<Rightarrow> (srv, Some e) | None \<Rightarrow>
     (case (orderId, writerId) of
        (Some i, Some w) \<Rightarrow> begin_take srv i w False
      | _ \<Rightarrow> (srv, Some (Json 400 ''Missing or invalid order or writer ID'')))))"

definition begin_claim ::
  "server \<Rightarrow> token option \<Rightarrow> int option \<Rightarrow> server \<times> response option" where
  "begin_claim srv au orderId =
     (case authMiddleware au of Some e \<Rightarrow> (srv, Some e) | None \<Rightarrow>
     (case au of None \<Rightarrow> (srv, Some (Json 403 ''Writer privileges required'')) | Some t \<Rightarrow>
      if t_role t \<noteq> ''writer'' then (srv, Some (Json 403 ''Writer privileges required''))
      else (case orderId of
        None \<Rightarrow> (srv, Some (Json 400 ''Missing orderId or invalid writer''))
      | Some i \<Rightarrow> begin_take srv i (t_id t) True)))"

text \<open>
  The next statement of the pending request at position \<open>k\<close>: the order query and its callback,
  or the UPDATE and its callback, which ends the request. The UPDATE fails on the
  foreign key only if it changes a row.
\<close>

definition resume :: "server \<Rightarrow> nat \<Rightarrow> server \<times> response option" where
  "resume srv k =
     (if length (takings srv) \<le> k then (srv, None)
      else
        (let t = takings srv ! k; done = srv\<lparr>takings := drop_taking k (takings srv)\<rparr> in
         if \<not> tk_checked t then
           (case order_by_id (db srv) (tk_order t) of
              None \<Rightarrow> (done, Some (Json 404 ''Order not found''))
            | Some r \<Rightarrow>
                if truthy_int (writer_id r) then (done, Some (Json 400 ''Order already assigned''))
                else if status r \<noteq> Some ''Pending Assignment''
                then (done, Some (Json 400 ''Order not available for assignment''))
                else (srv\<lparr>takings := (takings srv)[k := t\<lparr>tk_checked := True\<rparr>]\<rparr>, None))
         else if order_by_id (db srv) (tk_order t) \<noteq> None \<and>
                 \<not> fk_user (db srv) (Some (tk_writer t))
         then (done, Some (Json 500 (if tk_claim t then ''Failed to claim order''
                                    else ''Failed to assign order'')))
         else (done\<lparr>db := update_order (tk_order t)
                       (\<lambda>r. r\<lparr>writer_id := Some (tk_writer t), status := Some ''In Progress''\<rparr>)
                       (db srv)\<rparr>,
               Some (Json 200 (if tk_claim t then ''Order claimed successfully''
                               else ''Order assigned successfully'')))))"

fun step_ev :: "server \<Rightarrow> event \<Rightarrow> server \<times> response option" where
  "step_ev srv (BeginAssign au i w) = begin_assign srv au i w"
| "step_ev srv (BeginClaim au i) = begin_claim srv au i"
| "step_ev srv (Resume k) = resume srv k"
| "step_ev srv (Whole x) = (srv\<lparr>db := fst (step (db srv) x)\<rparr>, Some (snd (step (db srv) x)))"

definition play :: "server \<Rightarrow> event list \<Rightarrow> server" where
  "play srv evs = foldl (\<lambda>s e. fst (step_ev s e)) srv evs"

text \<open>The HTTP statuses answered along a schedule, in the order of the answers.\<close>

fun replies :: "server \<Rightarrow> event list \<Rightarrow> nat list" where
  "replies srv [] = []"
| "replies srv (e # es) =
     (case snd (step_ev srv e) of
        None \<Rightarrow> replies (fst (step_ev srv e)) es
      | Some r \<Rightarrow> status_of r # replies (fst (step_ev srv e)) es)"

definition idle :: "store \<Rightarrow> server" where
  "idle st = \<lparr>db = st, takings = []\<rparr>"

text \<open>
  A schedule is serial per writer when no assign or claim request for a writer begins
  while a request for the same writer is in flight, and its whole handlers are neither
  assign or claim (which go statement by statement) nor those that overwrite the status.
\<close>

fun whole_assign_or_claim :: "op \<Rightarrow> bool" where
  "whole_assign_or_claim (OpAssign au i w) = True"
| "whole_assign_or_claim (OpClaim au i) = True"
| "whole_assign_or_claim x = False"

definition in_flight :: "server \<Rightarrow> int \<Rightarrow> bool" where
  "in_flight srv w = (w \<in> set (map tk_writer (takings srv)))"

fun admissible :: "server \<Rightarrow> event \<Rightarrow> bool" where
  "admissible srv (BeginAssign au i w) = (case w of None \<Rightarrow> True | Some x \<Rightarrow> \<not> in_flight srv x)"
| "admissible srv (BeginClaim au i) = (case au of None \<Rightarrow> True | Some t \<Rightarrow> \<not> in_flight srv (t_id t))"
| "admissible srv (Resume k) = True"
| "admissible srv (Whole x) = (\<not> whole_assign_or_claim x \<and> \<not> overwrites_status x)"

fun serial_per_writer :: "server \<Rightarrow> event list \<Rightarrow> bool" where
  "serial_per_writer srv [] = True"
| "serial_per_writer srv (e # es) =
     (admissible srv e \<and> serial_per_writer (fst (step_ev srv e)) es)"

text \<open>Primary key and AUTOINCREMENT: ids are distinct and none exceeds the counter.\<close>

definition orders_keyed :: "store \<Rightarrow> bool" where
  "orders_keyed st =
     (distinct (map o_id (orders st)) \<and> (\<forall>r \<in> set (orders st). o_id r \<le> orders_seq st))"

text \<open>A regression of \<open>payment_status\<close> along unpaid, pending, paid.\<close>

definition regresses :: "string option \<Rightarrow> string option \<Rightarrow> bool" where
  "regresses old new =
     ((old = Some ''paid'' \<and> (new = Some ''pending'' \<or> new = Some ''unpaid'')) \<or>
      (old = Some ''pending'' \<and> new = Some ''unpaid''))"

subsection \<open>Notions used in the properties\<close>

text \<open>At most one order in progress per writer.\<close>

definition single_active :: "store \<Rightarrow> bool" where
  "single_active st = (\<forall>w. length (filter (is_active_for w) (orders st)) \<le> 1)"

text \<open>
  Referential integrity as SQLite keeps it: user ids come from AUTOINCREMENT and are
  positive, and the \<open>client_id\<close> and \<open>writer_id\<close> of every order are null or stored users.
\<close>

definition refs_ok :: "store \<Rightarrow> bool" where
  "refs_ok st =
     ((\<forall>u \<in> set (users st). 0 < u_id u) \<and>
      (\<forall>r \<in> set (orders st). fk_user st (writer_id r) \<and> fk_user st (client_id r)))"

text \<open>
  The three outcomes of the document server: the original file as it is (\<open>Full\<close>), a
  file served inline under the restrictive headers (\<open>Preview\<close>), or no file (\<open>Deny\<close>).
\<close>

datatype access = Deny | Preview | Full

definition access_of :: "response \<Rightarrow> access" where
  "access_of r =
     (case r of
        SendFile p hs \<Rightarrow> if hs = [] then Full else Preview
      | Pipe p hs \<Rightarrow> Preview
      | SendFileNotFound p \<Rightarrow> Deny
      | StaticFile p \<Rightarrow> Full
      | Json c m \<Rightarrow> Deny
      | Text c m \<Rightarrow> Deny)"

text \<open>
  The six inputs of the access decision, read from the store for a request: the
  requester's role and id, the order's \<open>client_id\<close>, \<open>writer_id\<close> and \<open>payment_status\<close>,
  and whether the order has a submission file.
\<close>

definition requested_order :: "store \<Rightarrow> preview_req \<Rightarrow> order option" where
  "requested_order st rq = (case pq_orderId rq of None \<Rightarrow> None | Some i \<Rightarrow> order_by_id st i)"

definition requesting_user :: "store \<Rightarrow> preview_req \<Rightarrow> user option" where
  "requesting_user st rq = (case requester_of rq of None \<Rightarrow> None | Some i \<Rightarrow> user_by_id st i)"

definition access_inputs ::
  "store \<Rightarrow> preview_req \<Rightarrow>
   string option \<times> int option \<times> int option option \<times> int option option \<times> string option option \<times> bool" where
  "access_inputs st rq =
     (map_option u_role (requesting_user st rq), requester_of rq,
      map_option client_id (requested_order st rq),
      map_option writer_id (requested_order st rq),
      map_option payment_status (requested_order st rq),
      (case requested_order st rq of None \<Rightarrow> False | Some r \<Rightarrow> truthy_str (submission_file r)))"

text \<open>
  What the disk holds for the requested order: whether \<open>res.sendFile\<close> can deliver the
  original file, whether the original file exists, and whether the preview artifact
  exists. All three are false when the request names no order with a submission file.
\<close>

definition disk_facts :: "disk \<Rightarrow> store \<Rightarrow> preview_req \<Rightarrow> bool \<times> bool \<times> bool" where
  "disk_facts fs st rq =
     (case pq_orderId rq of
        None \<Rightarrow> (False, False, False)
      | Some i \<Rightarrow>
          (case order_by_id st i of
             None \<Rightarrow> (False, False, False)
           | Some r \<Rightarrow>
               (case submission_file r of
                  None \<Rightarrow> (False, False, False)
                | Some sf \<Rightarrow>
                    (sendable fs (path_join uploadDir (basename sf)),
                     existsSync fs (path_join uploadDir (basename sf)),
                     existsSync fs (path_join previewDir (int_str i @ ''.pdf''))))))"

text \<open>
  The decision of /api/preview as a table over the six inputs and the three disk facts.
  The payment status is among the arguments and is not looked at.
\<close>

fun decide ::
  "string option \<times> int option \<times> int option option \<times> int option option \<times> string option option \<times> bool
   \<Rightarrow> bool \<times> bool \<times> bool \<Rightarrow> access" where
  "decide (role, rid, cid, wid, ps, present) (can_send, original, artifact) =
     (if \<not> truthy_int rid then Deny
      else if \<not> present then Deny
      else if role = None then Deny
      else if role = Some ''admin'' \<or> wid = Some rid then (if can_send then Full else Deny)
      else if cid = Some rid then (if artifact \<or> original then Preview else Deny)
      else Deny)"

text \<open>
  A plain file name: one segment, not empty, not beginning with a dot. The names that
  the upload handler gives (\<open>Date.now()\<close>, a dash, a random number, the extension) are
  plain.
\<close>

definition plain_name :: "string \<Rightarrow> bool" where
  "plain_name name = (name \<noteq> [] \<and> CHR ''/'' \<notin> set name \<and> hd name \<noteq> CHR ''.'')"

text \<open>
  A server is calm when its store has at most one order in progress per writer and
  distinct order ids, no two requests in flight are for the same writer, and no writer
  with a request in flight has an order in progress.
\<close>

definition calm :: "server \<Rightarrow> bool" where
  "calm srv =
     (single_active (db srv) \<and> orders_keyed (db srv) \<and>
      distinct (map tk_writer (takings srv)) \<and>
      (\<forall>t \<in> set (takings srv). active_order (db srv) (tk_writer t) = None))"

subsection \<open>Example data\<close>

definition the_admin :: user where
  "the_admin = \<lparr>u_id = 1, u_name = ''Admin'', u_email = ''admin@prowriters.local'',
     u_password = ''$2a$10$a'', u_role = ''admin'', u_country = ''KE'', u_approved = True\<rparr>"

definition the_writer :: user where
  "the_writer = \<lparr>u_id = 2, u_name = ''Writer'', u_email = ''writer@prowriters.local'',
     u_password = ''$2a$10$w'', u_role = ''writer'', u_country = ''KE'', u_approved = True\<rparr>"

definition the_client :: user where
  "the_client = \<lparr>u_id = 3, u_name = ''Client'', u_email = ''client@prowriters.local'',
     u_password = ''$2a$10$c'', u_role = ''client'', u_country = ''KE'', u_approved = True\<rparr>"

definition the_other :: user where
  "the_other = \<lparr>u_id = 4, u_name = ''Other'', u_email = ''other@prowriters.local'',
     u_password = ''$2a$10$o'', u_role = ''client'', u_country = ''KE'', u_approved = True\<rparr>"

definition admin_token :: token where
  "admin_token = \<lparr>t_id = 1, t_role = ''admin'', t_email = ''admin@prowriters.local''\<rparr>"

definition writer_token :: token where
  "writer_token = \<lparr>t_id = 2, t_role = ''writer'', t_email = ''writer@prowriters.local''\<rparr>"

definition client_token :: token where
  "client_token = \<lparr>t_id = 3, t_role = ''client'', t_email = ''client@prowriters.local''\<rparr>"

definition other_token :: token where
  "other_token = \<lparr>t_id = 4, t_role = ''client'', t_email = ''other@prowriters.local''\<rparr>"

text \<open>A store with the four users and no order.\<close>

definition fresh_store :: store where
  "fresh_store = \<lparr>users = [the_admin, the_writer, the_client, the_other], orders = [],
     email_verifications = [], users_seq = 4, orders_seq = 0, verifications_seq = 0\<rparr>"

definition essay_req :: create_req where
  "essay_req = \<lparr>cr_title = ''Essay'', cr_description = ''Two pages'', cr_client_id = Some 3,
     cr_submission_date = None, cr_expected_ready = None, cr_guide = None\<rparr>"

definition report_req :: create_req where
  "report_req = \<lparr>cr_title = ''Report'', cr_description = ''Ten pages'', cr_client_id = Some 3,
     cr_submission_date = None, cr_expected_ready = None, cr_guide = None\<rparr>"

text \<open>Order 1 as the client creates it, and as it stands after claim and submission.\<close>

definition essay_pending :: order where
  "essay_pending = \<lparr>o_id = 1, title = ''Essay'', description = ''Two pages'',
     client_id = Some 3, writer_id = None, status = Some ''Pending Assignment'',
     submission_date = None, expected_ready = None, client_guide = None,
     submission_file = None, payment_status = Some ''unpaid'', payment_ref = None,
     amount = Some 0\<rparr>"

definition essay_submitted :: order where
  "essay_submitted = essay_pending\<lparr>writer_id := Some 2, status := Some ''Submitted'',
     submission_file := Some ''/uploads/171-42.docx''\<rparr>"

definition store_with :: "order list \<Rightarrow> store" where
  "store_with rs = fresh_store\<lparr>orders := rs, orders_seq := int (length rs)\<rparr>"

definition essay_paid :: order where
  "essay_paid = essay_submitted\<lparr>payment_status := Some ''paid'',
     payment_ref := Some ''SIM-175-7'', status := Some ''Delivered to Client''\<rparr>"

definition essay_file :: string where
  "essay_file = ''uploads/171-42.docx''"

definition client_preview_req :: preview_req where
  "client_preview_req = \<lparr>pq_orderId = Some 1, pq_authUser = Some client_token, pq_userId = None\<rparr>"

definition other_preview_req :: preview_req where
  "other_preview_req = \<lparr>pq_orderId = Some 1, pq_authUser = Some other_token, pq_userId = None\<rparr>"

definition essay_preview_file :: string where
  "essay_preview_file = ''uploads/previews/1.pdf''"

definition admin_preview_req :: preview_req where
  "admin_preview_req = \<lparr>pq_orderId = Some 1, pq_authUser = Some admin_token, pq_userId = None\<rparr>"

text \<open>
  Two orders of the client; the writer claims the first, submits it, claims the second,
  and the status of the first is then set back to \<open>In Progress\<close>.
\<close>

definition booking :: "op list" where
  "booking =
     [OpCreate essay_req, OpCreate report_req, OpClaim (Some writer_token) (Some 1),
      OpSubmitWork (Some 1) (Some ''171-42.docx''), OpClaim (Some writer_token) (Some 2)]"

definition double_booking :: "op list" where
  "double_booking = booking @ [OpUpdateStatus (Some 1) (Some ''In Progress'')]"

text \<open>A simulated payment of order 1, confirmed by the timer, and a second initiation.\<close>

definition pay_req :: initiate_req where
  "pay_req = \<lparr>ir_orderId = Some 1, ir_phoneNumber = ''254700000001'', ir_amount = 500,
     ir_paymentRef = ''SIM-175-7'', ir_stk_ok = False\<rparr>"

definition paying :: "op list" where
  "paying = [OpCreate essay_req, OpInitiate NoMpesa pay_req, OpSimulatedConfirm 1 ''SIM-175-7'']"

definition paying_again :: "op list" where
  "paying_again = paying @ [OpInitiate NoMpesa (pay_req\<lparr>ir_paymentRef := ''SIM-180-9''\<rparr>)]"

text \<open>
  A user who has registered and not verified: the row that registration left, with its
  code and its expiry a quarter of an hour after time 0.
\<close>

definition the_newcomer :: user where
  "the_newcomer = \<lparr>u_id = 5, u_name = ''New'', u_email = ''new@prowriters.local'',
     u_password = ''$2a$10$n'', u_role = ''writer'', u_country = ''KE'', u_approved = False\<rparr>"

definition signup_row :: verification where
  "signup_row = \<lparr>v_id = 1, v_user_id = 5, v_email = ''new@prowriters.local'',
     v_code = ''123456'', v_expires_at = 900000, v_used = False, v_created_at = 0\<rparr>"

definition signup_store :: store where
  "signup_store = fresh_store\<lparr>users := users fresh_store @ [the_newcomer], users_seq := 5,
     email_verifications := [signup_row], verifications_seq := 1\<rparr>"

text \<open>The same user after a resend whose generated code is the one of the first row.\<close>

definition twice_mailed :: store where
  "twice_mailed =
     fst (resend_verification signup_store ''new@prowriters.local'' ''123456'' 60000 60)"

text \<open>
  The same user after two resends: three rows, the first and the last with one code, the
  middle one with another.
\<close>

definition thrice_mailed :: store where
  "thrice_mailed =
     fst (resend_verification
            (fst (resend_verification
                    (signup_store\<lparr>email_verifications := [signup_row\<lparr>v_code := ''111111''\<rparr>]\<rparr>)
                    ''new@prowriters.local'' ''222222'' 60000 60))
            ''new@prowriters.local'' ''111111'' 120000 120)"

text \<open>
  Two claims of the writer that overlap: both pass the active-order query before either
  runs its UPDATE.
\<close>

definition overlapping_claims :: "event list" where
  "overlapping_claims =
     [Whole (OpCreate essay_req), Whole (OpCreate report_req),
      BeginClaim (Some writer_token) (Some 1), BeginClaim (Some writer_token) (Some 2),
      Resume 0, Resume 1, Resume 0, Resume 0]"

text \<open>
  The same two claims with the second arriving after the first has answered, and
  another order created between the statements of the first.
\<close>

definition successive_claims :: "event list" where
  "successive_claims =
     [Whole (OpCreate essay_req), Whole (OpCreate report_req),
      BeginClaim (Some writer_token) (Some 1), Resume 0, Whole (OpCreate essay_req), Resume 0,
      BeginClaim (Some writer_token) (Some 2)]"


section \<open>Properties\<close>

subsection \<open>Lookups and updates\<close>

lemmas example_defs = store_with_def fresh_store_def essay_paid_def essay_submitted_def
  essay_pending_def the_admin_def the_writer_def the_client_def client_preview_req_def
  admin_preview_req_def client_token_def admin_token_def writer_token_def essay_file_def
  essay_req_def report_req_def the_other_def other_token_def other_preview_req_def
  essay_preview_file_def the_newcomer_def signup_row_def signup_store_def

lemma user_by_id_id: "user_by_id st i = Some u \<Longrightarrow> u_id u = i"
  unfolding user_by_id_def by (auto simp: find_Some_iff)

lemma order_by_id_id: "order_by_id st i = Some r \<Longrightarrow> o_id r = i"
  unfolding order_by_id_def by (auto simp: find_Some_iff)

lemma find_map_keep:
  assumes "\<And>x. P (g x) = P x"
  shows "find P (map g xs) = map_option g (find P xs)"
  using assms by (induction xs) auto

lemma order_by_id_update:
  assumes "\<And>r. o_id (f r) = o_id r"
  shows "order_by_id (update_order j f st) i =
         map_option (\<lambda>r. if o_id r = j then f r else r) (order_by_id st i)"
  unfolding order_by_id_def update_order_def using assms
  by (simp add: find_map_keep)

lemma order_by_id_update_same:
  assumes "\<And>r. o_id (f r) = o_id r"
  shows "order_by_id (update_order j f st) j = map_option f (order_by_id st j)"
  using order_by_id_id [of st j]
  by (cases "order_by_id st j") (simp_all add: order_by_id_update [OF assms])

lemma order_by_id_update_other:
  assumes "\<And>r. o_id (f r) = o_id r" and "i \<noteq> j"
  shows "order_by_id (update_order j f st) i = order_by_id st i"
  using order_by_id_id [of st i] assms(2)
  by (cases "order_by_id st i") (simp_all add: order_by_id_update [OF assms(1)])

lemma update_order_absent:
  assumes "order_by_id st j = None"
  shows "update_order j f st = st"
proof -
  have "\<And>r. r \<in> set (orders st) \<Longrightarrow> o_id r \<noteq> j"
    using assms unfolding order_by_id_def by (auto simp: find_None_iff)
  then have "map (\<lambda>r. if o_id r = j then f r else r) (orders st) = orders st"
    by (simp add: map_idI)
  then show ?thesis unfolding update_order_def by simp
qed

lemma update_order_twice:
  assumes "\<And>r. o_id (f r) = o_id r" and "\<And>r. f (f r) = f r"
  shows "update_order j f (update_order j f st) = update_order j f st"
  unfolding update_order_def using assms by (simp add: comp_def)

lemma update_order_tables:
  "users (update_order j f st) = users st"
  "email_verifications (update_order j f st) = email_verifications st"
  unfolding update_order_def by simp_all

subsection \<open>Confirming a payment\<close>

lemma markOrderPaid_twice:
  "markOrderPaid (markOrderPaid st oid ref) oid ref = markOrderPaid st oid ref"
  unfolding markOrderPaid_def by (rule update_order_twice) simp_all

lemma callback_confirms:
  assumes "body = GenericCallback (Some oid) (Some ref) \<or>
           (body = StkCallback 0 ref ps \<and> found_order q ps = Some oid \<and> oid \<noteq> 0)"
    and "ref \<noteq> []"
  shows "payments_callback st q body now = (markOrderPaid st oid ref, Json 200 ''Payment confirmed'')"
  using assms by (auto simp: payments_callback_def)

text \<open>
  C7. A payment callback for order \<open>oid\<close> with reference \<open>ref\<close> (the generic form, or a
  successful Daraja callback whose checkout id is \<open>ref\<close>) answers "Payment confirmed",
  sets the order's \<open>payment_status\<close> to \<open>paid\<close>, its \<open>payment_ref\<close> to \<open>ref\<close> and its
  \<open>status\<close> to \<open>Delivered to Client\<close>, and touches nothing else; the same callback
  applied to the result leaves the store as it is and answers the same.
\<close>

theorem confirm_payment_idempotent:
  assumes body: "body = GenericCallback (Some oid) (Some ref) \<or>
           (body = StkCallback 0 ref ps \<and> found_order q ps = Some oid \<and> oid \<noteq> 0)"
    and ref: "ref \<noteq> []"
    and first: "payments_callback st q body now = (st1, r1)"
    and second: "payments_callback st1 q body now' = (st2, r2)"
  shows "r1 = Json 200 ''Payment confirmed'' \<and>
         (\<forall>r. order_by_id st oid = Some r \<longrightarrow>
              order_by_id st1 oid =
                Some (r\<lparr>payment_status := Some ''paid'', payment_ref := Some ref,
                        status := Some ''Delivered to Client''\<rparr>)) \<and>
         (\<forall>i. i \<noteq> oid \<longrightarrow> order_by_id st1 i = order_by_id st i) \<and>
         users st1 = users st \<and> email_verifications st1 = email_verifications st \<and>
         st2 = st1 \<and> r2 = r1"
proof -
  have s1: "st1 = markOrderPaid st oid ref" and r1: "r1 = Json 200 ''Payment confirmed''"
    using callback_confirms [OF body ref, of st now] first by simp_all
  have s2: "st2 = markOrderPaid st1 oid ref" and r2: "r2 = Json 200 ''Payment confirmed''"
    using callback_confirms [OF body ref, of st1 now'] second by simp_all
  have a: "\<forall>r. order_by_id st oid = Some r \<longrightarrow>
              order_by_id st1 oid =
                Some (r\<lparr>payment_status := Some ''paid'', payment_ref := Some ref,
                        status := Some ''Delivered to Client''\<rparr>)"
    unfolding s1 markOrderPaid_def by (simp add: order_by_id_update_same)
  have b: "\<forall>i. i \<noteq> oid \<longrightarrow> order_by_id st1 i = order_by_id st i"
    unfolding s1 markOrderPaid_def by (simp add: order_by_id_update_other)
  have c: "users st1 = users st \<and> email_verifications st1 = email_verifications st"
    unfolding s1 markOrderPaid_def by (simp add: update_order_tables)
  have d: "st2 = st1" unfolding s2 s1 by (rule markOrderPaid_twice)
  show ?thesis using r1 r2 a b c d by simp
qed

theorem confirm_payment_idempotent_witness:
  "payments_callback (store_with [essay_submitted]) None
     (GenericCallback (Some 1) (Some ''SIM-175-7'')) 175
     = (store_with [essay_paid], Json 200 ''Payment confirmed'') \<and>
   payments_callback (store_with [essay_paid]) None
     (GenericCallback (Some 1) (Some ''SIM-175-7'')) 180
     = (store_with [essay_paid], Json 200 ''Payment confirmed'') \<and>
   order_by_id (store_with [essay_paid]) 1 = Some essay_paid"
proof -
  let ?body = "GenericCallback (Some 1) (Some ''SIM-175-7'')"
  have first: "payments_callback (store_with [essay_submitted]) None ?body 175
     = (store_with [essay_paid], Json 200 ''Payment confirmed'')"
    by (simp add: payments_callback_def markOrderPaid_def update_order_def example_defs)
  obtain st2 r2 where second: "payments_callback (store_with [essay_paid]) None ?body 180 = (st2, r2)"
    by (cases "payments_callback (store_with [essay_paid]) None ?body 180")
  have look: "order_by_id (store_with [essay_submitted]) 1 = Some essay_submitted"
    by (simp add: order_by_id_def example_defs)
  have "''SIM-175-7'' \<noteq> []" by simp
  from confirm_payment_idempotent [OF _ this first second, of 1 "[]"] look
  have "st2 = store_with [essay_paid]" and "r2 = Json 200 ''Payment confirmed''"
    and "order_by_id (store_with [essay_paid]) 1 =
      Some (essay_submitted\<lparr>payment_status := Some ''paid'', payment_ref := Some ''SIM-175-7'',
                        status := Some ''Delivered to Client''\<rparr>)"
    by simp_all
  then show ?thesis using first second by (simp add: essay_paid_def)
qed

subsection \<open>Updating the status\<close>

text \<open>
  C8, as the specification states it, fails where the order does not exist: the handler runs the
  UPDATE, which matches no row and raises no error, and answers with success. Order 99
  is not in the store.
\<close>

theorem update_status_missing_order_succeeds:
  "order_by_id (store_with [essay_submitted]) 99 = None \<and>
   update_status (store_with [essay_submitted]) (Some 99) (Some ''In Progress'')
     = (store_with [essay_submitted], Json 200 ''Status updated successfully'')"
  by (simp add: update_status_def update_order_def order_by_id_def truthy_str_def example_defs)

text \<open>
  C8, amended. For a non-empty status and any order id the handler answers with
  success. An order with that id has its \<open>status\<close> overwritten with the supplied value,
  whatever the old one, and no other field changed; every other order and the other
  tables are as before; when no order has the id the store is unchanged (and the answer
  is still success).
\<close>

theorem update_status_overwrites:
  assumes "new \<noteq> []" and "update_status st (Some i) (Some new) = (st', resp)"
  shows "resp = Json 200 ''Status updated successfully'' \<and>
         (\<forall>r. order_by_id st i = Some r \<longrightarrow> order_by_id st' i = Some (r\<lparr>status := Some new\<rparr>)) \<and>
         (order_by_id st i = None \<longrightarrow> st' = st) \<and>
         (\<forall>j. j \<noteq> i \<longrightarrow> order_by_id st' j = order_by_id st j) \<and>
         users st' = users st \<and> email_verifications st' = email_verifications st"
proof -
  have st': "st' = update_order i (\<lambda>r. r\<lparr>status := Some new\<rparr>) st"
    and resp: "resp = Json 200 ''Status updated successfully''"
    using assms by (simp_all add: update_status_def truthy_str_def)
  have a: "\<forall>r. order_by_id st i = Some r \<longrightarrow> order_by_id st' i = Some (r\<lparr>status := Some new\<rparr>)"
    unfolding st' by (simp add: order_by_id_update_same)
  have b: "order_by_id st i = None \<longrightarrow> st' = st"
    unfolding st' by (simp add: update_order_absent)
  have c: "\<forall>j. j \<noteq> i \<longrightarrow> order_by_id st' j = order_by_id st j"
    unfolding st' by (simp add: order_by_id_update_other)
  have d: "users st' = users st \<and> email_verifications st' = email_verifications st"
    unfolding st' by (simp add: update_order_tables)
  show ?thesis using resp a b c d by simp
qed

theorem update_status_overwrites_witness:
  "update_status (store_with [essay_submitted]) (Some 1) (Some ''Pending Assignment'')
     = (store_with [essay_submitted\<lparr>status := Some ''Pending Assignment''\<rparr>],
        Json 200 ''Status updated successfully'') \<and>
   order_by_id (store_with [essay_submitted\<lparr>status := Some ''Pending Assignment''\<rparr>]) 1
     = Some (essay_submitted\<lparr>status := Some ''Pending Assignment''\<rparr>)"
proof -
  have run: "update_status (store_with [essay_submitted]) (Some 1) (Some ''Pending Assignment'')
     = (store_with [essay_submitted\<lparr>status := Some ''Pending Assignment''\<rparr>],
        Json 200 ''Status updated successfully'')"
    by (simp add: update_status_def update_order_def truthy_str_def example_defs)
  have look: "order_by_id (store_with [essay_submitted]) 1 = Some essay_submitted"
    by (simp add: order_by_id_def example_defs)
  have "''Pending Assignment'' \<noteq> []" by simp
  from update_status_overwrites [OF this run] look
  show ?thesis using run by simp
qed

subsection \<open>Assign and claim\<close>

lemma order_by_id_mem: "order_by_id st i = Some r \<Longrightarrow> r \<in> set (orders st)"
  unfolding order_by_id_def by (auto simp: find_Some_iff)

lemma active_order_None_iff:
  "active_order st w = None \<longleftrightarrow> (\<forall>r \<in> set (orders st). \<not> is_active_for w r)"
  unfolding active_order_def by (auto simp: find_None_iff)

text \<open>Under referential integrity a writer id that is set is never 0.\<close>

lemma set_writer_truthy:
  assumes "refs_ok st" and "order_by_id st i = Some r"
  shows "truthy_int (writer_id r) \<longleftrightarrow> writer_id r \<noteq> None"
proof (cases "writer_id r")
  case None
  then show ?thesis by (simp add: truthy_int_def)
next
  case (Some x)
  have "r \<in> set (orders st)" using assms(2) by (rule order_by_id_mem)
  then have "fk_user st (Some x)" using assms(1) Some unfolding refs_ok_def by auto
  then obtain u where "user_by_id st x = Some u" by (auto simp: fk_user_def)
  then have "u \<in> set (users st)" and "u_id u = x"
    unfolding user_by_id_def by (auto simp: find_Some_iff)
  then have "0 < x" using assms(1) unfolding refs_ok_def by auto
  then show ?thesis using Some by (simp add: truthy_int_def)
qed

text \<open>Claim is \<open>proceedAssign\<close> for the caller, up to the wording of the messages.\<close>

lemma claim_as_assign:
  assumes "t_role a = ''writer''"
  shows "fst (claim st (Some a) (Some i)) = fst (proceedAssign st i (t_id a)) \<and>
         status_of (snd (claim st (Some a) (Some i))) = status_of (snd (proceedAssign st i (t_id a)))"
  using assms
  by (simp add: claim_def proceedAssign_def authMiddleware_def Let_def status_of_def
           split: option.splits)

lemma assign_as_proceed:
  assumes "t_role a = ''admin''"
  shows "assign st (Some a) (Some i) (Some w) = proceedAssign st i w"
  using assms by (simp add: assign_def authMiddleware_def requireAdmin_def)

lemma proceedAssign_rule:
  assumes refs: "refs_ok st"
  shows "((\<exists>r \<in> set (orders st). is_active_for w r) \<longrightarrow>
            fst (proceedAssign st i w) = st \<and> status_of (snd (proceedAssign st i w)) = 400) \<and>
         ((\<forall>r \<in> set (orders st). \<not> is_active_for w r) \<and> order_by_id st i = None \<longrightarrow>
            fst (proceedAssign st i w) = st \<and> status_of (snd (proceedAssign st i w)) = 404) \<and>
         (\<forall>r. (\<forall>r \<in> set (orders st). \<not> is_active_for w r) \<and> order_by_id st i = Some r \<and>
              (writer_id r \<noteq> None \<or> status r \<noteq> Some ''Pending Assignment'') \<longrightarrow>
            fst (proceedAssign st i w) = st \<and> status_of (snd (proceedAssign st i w)) = 400) \<and>
         (\<forall>r. (\<forall>r \<in> set (orders st). \<not> is_active_for w r) \<and> order_by_id st i = Some r \<and>
              writer_id r = None \<and> status r = Some ''Pending Assignment'' \<and>
              user_by_id st w \<noteq> None \<longrightarrow>
            status_of (snd (proceedAssign st i w)) = 200) \<and>
         (status_of (snd (proceedAssign st i w)) = 200 \<longrightarrow>
            (\<exists>r. order_by_id st i = Some r \<and>
                 order_by_id (fst (proceedAssign st i w)) i =
                   Some (r\<lparr>writer_id := Some w, status := Some ''In Progress''\<rparr>)) \<and>
            (\<forall>j. j \<noteq> i \<longrightarrow> order_by_id (fst (proceedAssign st i w)) j = order_by_id st j) \<and>
            users (fst (proceedAssign st i w)) = users st \<and>
            email_verifications (fst (proceedAssign st i w)) = email_verifications st)"
proof (cases "active_order st w = None")
  case False
  then have "\<exists>r \<in> set (orders st). is_active_for w r"
    by (simp add: active_order_None_iff)
  then show ?thesis using False by (auto simp: proceedAssign_def status_of_def)
next
  case free: True
  then have none: "\<forall>r \<in> set (orders st). \<not> is_active_for w r"
    by (simp add: active_order_None_iff)
  show ?thesis
  proof (cases "order_by_id st i")
    case None
    then show ?thesis using free none by (auto simp: proceedAssign_def status_of_def)
  next
    case (Some r)
    have tr: "truthy_int (writer_id r) \<longleftrightarrow> writer_id r \<noteq> None"
      using refs Some by (rule set_writer_truthy)
    show ?thesis
    proof (cases "writer_id r \<noteq> None \<or> status r \<noteq> Some ''Pending Assignment''")
      case True
      then show ?thesis using free none Some tr
        by (auto simp: proceedAssign_def status_of_def)
    next
      case ok: False
      show ?thesis
      proof (cases "user_by_id st w")
        case None
        then show ?thesis using free none Some tr ok
          by (auto simp: proceedAssign_def status_of_def fk_user_def)
      next
        case (Some u)
        then have res: "proceedAssign st i w =
            (update_order i (\<lambda>r. r\<lparr>writer_id := Some w, status := Some ''In Progress''\<rparr>) st,
             Json 200 ''Order assigned successfully'')"
          using free \<open>order_by_id st i = Some r\<close> tr ok
          by (simp add: proceedAssign_def fk_user_def)
        show ?thesis using none \<open>order_by_id st i = Some r\<close> ok Some
          unfolding res
          by (simp add: status_of_def order_by_id_update_same order_by_id_update_other
                update_order_tables)
      qed
    qed
  qed
qed

text \<open>
  C2. Assign by an admin (for writer \<open>w\<close>) and claim by a writer (for the caller's own
  id) follow one rule, in this order: if the writer has an order in progress the request
  fails with 400 (the code this server gives a conflict); else if the order does not
  exist it fails with 404; else if the order's writer is set or its status is not
  \<open>Pending Assignment\<close> it fails with 400; a failure leaves the store as it was. When
  none of these holds and the writer is a stored user the request succeeds, and a
  success sets the order's writer to \<open>w\<close> and its status to \<open>In Progress\<close> and changes
  nothing else. The store is taken with its referential integrity.
\<close>

theorem assign_claim_rule:
  assumes who: "(t_role a = ''admin'' \<and> res = assign st (Some a) (Some i) (Some w)) \<or>
                (t_role a = ''writer'' \<and> w = t_id a \<and> res = claim st (Some a) (Some i))"
    and refs: "refs_ok st"
  shows "((\<exists>r \<in> set (orders st). is_active_for w r) \<longrightarrow>
            fst res = st \<and> status_of (snd res) = 400) \<and>
         ((\<forall>r \<in> set (orders st). \<not> is_active_for w r) \<and> order_by_id st i = None \<longrightarrow>
            fst res = st \<and> status_of (snd res) = 404) \<and>
         (\<forall>r. (\<forall>r \<in> set (orders st). \<not> is_active_for w r) \<and> order_by_id st i = Some r \<and>
              (writer_id r \<noteq> None \<or> status r \<noteq> Some ''Pending Assignment'') \<longrightarrow>
            fst res = st \<and> status_of (snd res) = 400) \<and>
         (\<forall>r. (\<forall>r \<in> set (orders st). \<not> is_active_for w r) \<and> order_by_id st i = Some r \<and>
              writer_id r = None \<and> status r = Some ''Pending Assignment'' \<and>
              user_by_id st w \<noteq> None \<longrightarrow>
            status_of (snd res) = 200) \<and>
         (status_of (snd res) = 200 \<longrightarrow>
            (\<exists>r. order_by_id st i = Some r \<and>
                 order_by_id (fst res) i =
                   Some (r\<lparr>writer_id := Some w, status := Some ''In Progress''\<rparr>)) \<and>
            (\<forall>j. j \<noteq> i \<longrightarrow> order_by_id (fst res) j = order_by_id st j) \<and>
            users (fst res) = users st \<and>
            email_verifications (fst res) = email_verifications st)"
proof -
  have "fst res = fst (proceedAssign st i w) \<and>
        status_of (snd res) = status_of (snd (proceedAssign st i w))"
    using who claim_as_assign [of a st i] assign_as_proceed [of a st i w] by auto
  then show ?thesis using proceedAssign_rule [OF refs, of w i] by simp
qed

theorem assign_claim_rule_witness:
  "refs_ok (store_with [essay_pending]) \<and>
   assign (store_with [essay_pending]) (Some admin_token) (Some 1) (Some 2)
     = (store_with [essay_pending\<lparr>writer_id := Some 2, status := Some ''In Progress''\<rparr>],
        Json 200 ''Order assigned successfully'') \<and>
   claim (store_with [essay_pending]) (Some writer_token) (Some 1)
     = (store_with [essay_pending\<lparr>writer_id := Some 2, status := Some ''In Progress''\<rparr>],
        Json 200 ''Order claimed successfully'') \<and>
   order_by_id (store_with [essay_pending\<lparr>writer_id := Some 2, status := Some ''In Progress''\<rparr>]) 1
     = Some (essay_pending\<lparr>writer_id := Some 2, status := Some ''In Progress''\<rparr>)"
proof -
  let ?st = "store_with [essay_pending]"
  have refs: "refs_ok ?st" by code_simp
  have adm: "t_role admin_token = ''admin''" by code_simp
  have wri: "t_role writer_token = ''writer''" and wid: "2 = t_id writer_token" by code_simp+
  have a: "assign ?st (Some admin_token) (Some 1) (Some 2)
     = (store_with [essay_pending\<lparr>writer_id := Some 2, status := Some ''In Progress''\<rparr>],
        Json 200 ''Order assigned successfully'')" by code_simp
  have c: "claim ?st (Some writer_token) (Some 1)
     = (store_with [essay_pending\<lparr>writer_id := Some 2, status := Some ''In Progress''\<rparr>],
        Json 200 ''Order claimed successfully'')" by code_simp
  have look: "order_by_id ?st 1 = Some essay_pending" by code_simp
  have sa: "status_of (snd (assign ?st (Some admin_token) (Some 1) (Some 2))) = 200"
    unfolding a by (simp add: status_of_def)
  from assign_claim_rule [OF _ refs, of admin_token
         "assign ?st (Some admin_token) (Some 1) (Some 2)" 1 2] adm sa look
  have "order_by_id (fst (assign ?st (Some admin_token) (Some 1) (Some 2))) 1
          = Some (essay_pending\<lparr>writer_id := Some 2, status := Some ''In Progress''\<rparr>)"
    by simp
  then show ?thesis using refs a c by simp
qed

subsection \<open>One order in progress per writer\<close>

lemma filter_length_mono:
  assumes "\<And>x. x \<in> set xs \<Longrightarrow> P x \<Longrightarrow> Q x"
  shows "length (filter P xs) \<le> length (filter Q xs)"
  using assms by (induction xs) auto

lemma filter_map_length_mono:
  assumes "\<And>x. x \<in> set xs \<Longrightarrow> P (g x) \<Longrightarrow> Q x"
  shows "length (filter P (map g xs)) \<le> length (filter Q xs)"
  using assms by (induction xs) auto

lemma distinct_key_filter:
  assumes "distinct (map k xs)"
  shows "length (filter (\<lambda>x. k x = i) xs) \<le> 1"
  using assms
proof (induction xs)
  case Nil
  then show ?case by simp
next
  case (Cons x xs)
  show ?case
  proof (cases "k x = i")
    case True
    with Cons.prems have "\<And>y. y \<in> set xs \<Longrightarrow> k y \<noteq> i" by (auto simp: image_iff)
    then have "filter (\<lambda>x. k x = i) xs = []" by (auto simp: filter_empty_conv)
    with True show ?thesis by simp
  next
    case False
    with Cons show ?thesis by simp
  qed
qed

text \<open>An update that makes no row active keeps the invariant.\<close>

lemma update_keeps_single_active:
  assumes inv: "single_active st"
    and f: "\<And>r w. is_active_for w (f r) \<Longrightarrow> is_active_for w r"
  shows "single_active (update_order i f st)"
  unfolding single_active_def
proof
  fix w
  have "length (filter (is_active_for w) (map (\<lambda>r. if o_id r = i then f r else r) (orders st)))
        \<le> length (filter (is_active_for w) (orders st))"
    by (rule filter_map_length_mono) (use f in \<open>auto split: if_splits\<close>)
  also have "\<dots> \<le> 1" using inv unfolding single_active_def by simp
  finally show "length (filter (is_active_for w) (orders (update_order i f st))) \<le> 1"
    unfolding update_order_def by simp
qed

lemma update_keeps_keyed:
  assumes "orders_keyed st" and "\<And>r. o_id (f r) = o_id r"
  shows "orders_keyed (update_order i f st)"
proof -
  have "(\<lambda>r. o_id (if o_id r = i then f r else r)) = o_id"
    using assms(2) by auto
  then show ?thesis using assms unfolding orders_keyed_def update_order_def
    by (auto simp: comp_def)
qed

text \<open>Giving an order to a writer who has none in progress.\<close>

lemma take_keeps_single_active:
  assumes inv: "single_active st" and key: "orders_keyed st"
    and free: "active_order st w = None"
  shows "single_active (update_order i
           (\<lambda>r. r\<lparr>writer_id := Some w, status := Some ''In Progress''\<rparr>) st)"
  unfolding single_active_def
proof
  fix w'
  let ?g = "\<lambda>r. if o_id r = i then r\<lparr>writer_id := Some w, status := Some ''In Progress''\<rparr> else r"
  have none: "\<And>r. r \<in> set (orders st) \<Longrightarrow> \<not> is_active_for w r"
    using free unfolding active_order_def by (simp add: find_None_iff)
  show "length (filter (is_active_for w') (orders (update_order i
           (\<lambda>r. r\<lparr>writer_id := Some w, status := Some ''In Progress''\<rparr>) st))) \<le> 1"
  proof (cases "w' = w")
    case True
    have "length (filter (is_active_for w) (map ?g (orders st)))
          \<le> length (filter (\<lambda>r. o_id r = i) (orders st))"
      using none by (intro filter_map_length_mono) (auto split: if_splits)
    also have "\<dots> \<le> 1"
      using key unfolding orders_keyed_def by (intro distinct_key_filter) simp
    finally show ?thesis using True unfolding update_order_def by simp
  next
    case False
    have "length (filter (is_active_for w') (map ?g (orders st)))
          \<le> length (filter (is_active_for w') (orders st))"
      using False by (intro filter_map_length_mono) (auto simp: is_active_for_def split: if_splits)
    also have "\<dots> \<le> 1" using inv unfolding single_active_def by simp
    finally show ?thesis unfolding update_order_def by simp
  qed
qed

lemma proceedAssign_keeps:
  assumes "single_active st" and "orders_keyed st"
  shows "single_active (fst (proceedAssign st i w)) \<and> orders_keyed (fst (proceedAssign st i w))"
  using assms
  by (auto simp: proceedAssign_def take_keeps_single_active update_keeps_keyed
           split: option.splits)

lemma assign_keeps:
  assumes "single_active st" and "orders_keyed st"
  shows "single_active (fst (assign st au i w)) \<and> orders_keyed (fst (assign st au i w))"
  using assms proceedAssign_keeps [OF assms]
  by (auto simp: assign_def split: option.splits)

lemma claim_keeps:
  assumes "single_active st" and "orders_keyed st"
  shows "single_active (fst (claim st au i)) \<and> orders_keyed (fst (claim st au i))"
  using assms
  by (auto simp: claim_def Let_def take_keeps_single_active update_keeps_keyed
           split: option.splits)

lemma create_keeps:
  assumes "single_active st" and "orders_keyed st"
  shows "single_active (fst (create_order st rq)) \<and> orders_keyed (fst (create_order st rq))"
proof -
  have "\<And>r. r \<in> set (orders st) \<Longrightarrow> o_id r \<noteq> orders_seq st + 1"
    using assms(2) unfolding orders_keyed_def by fastforce
  then show ?thesis
    using assms unfolding create_order_def Let_def single_active_def orders_keyed_def
    by (auto simp: is_active_for_def)
qed

lemma submit_keeps:
  assumes "single_active st" and "orders_keyed st"
  shows "single_active (fst (submit_work st i f)) \<and> orders_keyed (fst (submit_work st i f))"
  using assms
  by (auto simp: submit_work_def is_active_for_def
           intro!: update_keeps_single_active update_keeps_keyed split: option.splits)

lemma send_keeps:
  assumes "single_active st" and "orders_keyed st"
  shows "single_active (fst (send_to_client st au i)) \<and> orders_keyed (fst (send_to_client st au i))"
  using assms
  by (auto simp: send_to_client_def is_active_for_def
           intro!: update_keeps_single_active update_keeps_keyed split: option.splits)

lemma markOrderPaid_keeps:
  assumes "single_active st" and "orders_keyed st"
  shows "single_active (markOrderPaid st i ref) \<and> orders_keyed (markOrderPaid st i ref)"
  using assms
  by (auto simp: markOrderPaid_def is_active_for_def
           intro!: update_keeps_single_active update_keeps_keyed)

lemma callback_keeps:
  assumes "single_active st" and "orders_keyed st"
  shows "single_active (fst (payments_callback st q body now)) \<and>
         orders_keyed (fst (payments_callback st q body now))"
  using assms markOrderPaid_keeps [OF assms]
  by (auto simp: payments_callback_def split: callback_body.splits option.splits)

lemma initiate_keeps:
  assumes "single_active st" and "orders_keyed st"
  shows "single_active (fst (payments_initiate env st rq)) \<and>
         orders_keyed (fst (payments_initiate env st rq))"
  using assms
  by (auto simp: payments_initiate_def Let_def is_active_for_def
           intro!: update_keeps_single_active update_keeps_keyed
           split: option.splits mpesa_env.splits)

lemma delete_keeps:
  assumes "single_active st" and "orders_keyed st"
  shows "single_active (fst (delete_order st au i)) \<and> orders_keyed (fst (delete_order st au i))"
proof -
  have "\<And>w j. length (filter (is_active_for w) (filter (\<lambda>r. o_id r \<noteq> j) (orders st)))
          \<le> length (filter (is_active_for w) (orders st))"
    by (simp, rule filter_length_mono, simp)
  then have "\<And>w j. length (filter (is_active_for w) (filter (\<lambda>r. o_id r \<noteq> j) (orders st))) \<le> 1"
    using assms(1) unfolding single_active_def by (meson le_trans)
  then show ?thesis
    using assms unfolding delete_order_def single_active_def orders_keyed_def
    by (auto simp: distinct_map_filter split: option.splits)
qed

lemma step_keeps:
  assumes "single_active st" and "orders_keyed st" and "\<not> overwrites_status x"
  shows "single_active (fst (step st x)) \<and> orders_keyed (fst (step st x))"
proof (cases x)
  case (OpCreate rq) then show ?thesis using create_keeps [OF assms(1,2)] by simp
next
  case (OpAssign au i w) then show ?thesis using assign_keeps [OF assms(1,2)] by simp
next
  case (OpClaim au i) then show ?thesis using claim_keeps [OF assms(1,2)] by simp
next
  case (OpUpdateStatus i s) then show ?thesis using assms(3) by simp
next
  case (OpSubmitWork i f) then show ?thesis using submit_keeps [OF assms(1,2)] by simp
next
  case (OpSendToClient au i) then show ?thesis using send_keeps [OF assms(1,2)] by simp
next
  case (OpAdminUpdate au i p) then show ?thesis using assms(3) by simp
next
  case (OpInitiate env rq) then show ?thesis using initiate_keeps [OF assms(1,2)] by simp
next
  case (OpSimulatedConfirm i ref) then show ?thesis using markOrderPaid_keeps [OF assms(1,2)] by simp
next
  case (OpCallback q body now) then show ?thesis using callback_keeps [OF assms(1,2)] by simp
next
  case (OpDelete au i) then show ?thesis using delete_keeps [OF assms(1,2)] by simp
qed

lemma run_keeps:
  assumes "single_active st" and "orders_keyed st" and "\<forall>x \<in> set ops. \<not> overwrites_status x"
  shows "single_active (run st ops) \<and> orders_keyed (run st ops)"
  using assms unfolding run_def
proof (induction ops arbitrary: st)
  case Nil
  then show ?case by simp
next
  case (Cons x ops)
  have "single_active (fst (step st x)) \<and> orders_keyed (fst (step st x))"
    using step_keeps [of st x] Cons.prems by simp
  then show ?case using Cons.IH [of "fst (step st x)"] Cons.prems by simp
qed

text \<open>A whole handler that is admissible gives no writer an order in progress.\<close>

lemma update_keeps_idle_writer:
  assumes "active_order st w = None"
    and "\<And>r. is_active_for w (f r) \<Longrightarrow> is_active_for w r"
  shows "active_order (update_order i f st) w = None"
  using assms unfolding active_order_def update_order_def
  by (auto simp: find_None_iff split: if_splits)

lemma whole_keeps_idle_writer:
  assumes "active_order st w = None"
    and "\<not> whole_assign_or_claim x" and "\<not> overwrites_status x"
  shows "active_order (fst (step st x)) w = None"
proof (cases x)
  case (OpCreate rq)
  then show ?thesis using assms(1)
    by (auto simp: create_order_def Let_def active_order_def find_None_iff is_active_for_def)
next
  case (OpAssign au i w) then show ?thesis using assms(2) by simp
next
  case (OpClaim au i) then show ?thesis using assms(2) by simp
next
  case (OpUpdateStatus i s) then show ?thesis using assms(3) by simp
next
  case (OpSubmitWork i f)
  then show ?thesis using assms(1)
    by (auto simp: submit_work_def is_active_for_def intro!: update_keeps_idle_writer
             split: option.splits)
next
  case (OpSendToClient au i)
  then show ?thesis using assms(1)
    by (auto simp: send_to_client_def is_active_for_def intro!: update_keeps_idle_writer
             split: option.splits)
next
  case (OpAdminUpdate au i p) then show ?thesis using assms(3) by simp
next
  case (OpInitiate env rq)
  then show ?thesis using assms(1)
    by (auto simp: payments_initiate_def Let_def is_active_for_def
             intro!: update_keeps_idle_writer split: option.splits mpesa_env.splits)
next
  case (OpSimulatedConfirm i ref)
  then show ?thesis using assms(1)
    by (auto simp: markOrderPaid_def is_active_for_def intro!: update_keeps_idle_writer)
next
  case (OpCallback q body now)
  then show ?thesis using assms(1)
    by (auto simp: payments_callback_def markOrderPaid_def is_active_for_def
             intro!: update_keeps_idle_writer split: callback_body.splits option.splits)
next
  case (OpDelete au i)
  then show ?thesis using assms(1)
    by (auto simp: delete_order_def active_order_def find_None_iff split: option.splits)
qed

text \<open>Taking a request out of the list of those in flight.\<close>

lemma set_drop_taking: "set (drop_taking k ts) \<subseteq> set ts"
  unfolding drop_taking_def by (auto dest: in_set_takeD in_set_dropD)

lemma drop_taking_writers:
  assumes "distinct (map tk_writer ts)" and "k < length ts"
  shows "distinct (map tk_writer (drop_taking k ts)) \<and>
         tk_writer (ts ! k) \<notin> set (map tk_writer (drop_taking k ts))"
proof -
  let ?ws = "map tk_writer ts"
  have k: "k < length ?ws" using assms(2) by simp
  have split: "?ws = take k ?ws @ ?ws ! k # drop (Suc k) ?ws"
    using k by (rule id_take_nth_drop)
  have "distinct (take k ?ws @ ?ws ! k # drop (Suc k) ?ws)"
    using assms(1) split by simp
  then have "distinct (take k ?ws @ drop (Suc k) ?ws) \<and>
             ?ws ! k \<notin> set (take k ?ws @ drop (Suc k) ?ws)"
    by auto
  moreover have "map tk_writer (drop_taking k ts) = take k ?ws @ drop (Suc k) ?ws"
    unfolding drop_taking_def by (simp add: take_map drop_map)
  ultimately show ?thesis using assms(2) by simp
qed

lemma begin_take_calm:
  assumes "calm srv" and "\<not> in_flight srv w"
  shows "calm (fst (begin_take srv i w c))"
  using assms by (auto simp: begin_take_def calm_def in_flight_def)

lemma begin_assign_calm:
  assumes "calm srv" and "admissible srv (BeginAssign au i w)"
  shows "calm (fst (begin_assign srv au i w))"
  using assms
  by (auto simp: begin_assign_def begin_take_calm split: option.splits)

lemma begin_claim_calm:
  assumes "calm srv" and "admissible srv (BeginClaim au i)"
  shows "calm (fst (begin_claim srv au i))"
  using assms
  by (auto simp: begin_claim_def begin_take_calm split: option.splits)

lemma done_calm:
  assumes "calm srv" and "k < length (takings srv)"
  shows "calm (srv\<lparr>takings := drop_taking k (takings srv)\<rparr>)"
  using assms drop_taking_writers [of "takings srv" k] set_drop_taking [of k "takings srv"]
  by (auto simp: calm_def)

lemma checked_calm:
  assumes "calm srv" and "k < length (takings srv)"
  shows "calm (srv\<lparr>takings := (takings srv)[k := (takings srv ! k)\<lparr>tk_checked := True\<rparr>]\<rparr>)"
proof -
  let ?ts = "(takings srv)[k := (takings srv ! k)\<lparr>tk_checked := True\<rparr>]"
  have ws: "map tk_writer ?ts = map tk_writer (takings srv)"
    using assms(2) by (simp add: map_update list_update_same_conv)
  have "\<And>t. t \<in> set ?ts \<Longrightarrow> \<exists>t' \<in> set (takings srv). tk_writer t' = tk_writer t"
    using ws by (metis (no_types, lifting) image_iff list.set_map)
  then have "\<forall>t \<in> set ?ts. active_order (db srv) (tk_writer t) = None"
    using assms(1) unfolding calm_def by metis
  then show ?thesis using assms(1) ws by (simp add: calm_def)
qed

lemma written_calm:
  assumes "calm srv" and "k < length (takings srv)"
  shows "calm (srv\<lparr>takings := drop_taking k (takings srv),
                  db := update_order (tk_order (takings srv ! k))
                    (\<lambda>r. r\<lparr>writer_id := Some (tk_writer (takings srv ! k)),
                           status := Some ''In Progress''\<rparr>) (db srv)\<rparr>)"
proof -
  let ?t = "takings srv ! k"
  let ?f = "\<lambda>r. r\<lparr>writer_id := Some (tk_writer ?t), status := Some ''In Progress''\<rparr>"
  have mem: "?t \<in> set (takings srv)" using assms(2) by simp
  then have free: "active_order (db srv) (tk_writer ?t) = None"
    using assms(1) by (simp add: calm_def)
  have sa: "single_active (update_order (tk_order ?t) ?f (db srv))"
    using assms(1) free by (intro take_keeps_single_active) (simp_all add: calm_def)
  have key: "orders_keyed (update_order (tk_order ?t) ?f (db srv))"
    using assms(1) by (intro update_keeps_keyed) (simp_all add: calm_def)
  have ws: "distinct (map tk_writer (drop_taking k (takings srv)))"
    and other: "tk_writer ?t \<notin> set (map tk_writer (drop_taking k (takings srv)))"
    using drop_taking_writers [of "takings srv" k] assms by (simp_all add: calm_def)
  have "\<forall>t \<in> set (drop_taking k (takings srv)).
          active_order (update_order (tk_order ?t) ?f (db srv)) (tk_writer t) = None"
  proof
    fix t assume t: "t \<in> set (drop_taking k (takings srv))"
    then have "tk_writer t \<noteq> tk_writer ?t" using other by (auto simp: image_iff)
    moreover have "active_order (db srv) (tk_writer t) = None"
      using t set_drop_taking [of k "takings srv"] assms(1) by (auto simp: calm_def)
    ultimately show "active_order (update_order (tk_order ?t) ?f (db srv)) (tk_writer t) = None"
      by (intro update_keeps_idle_writer) (auto simp: is_active_for_def)
  qed
  then show ?thesis using sa key ws by (simp add: calm_def)
qed

lemma resume_calm:
  assumes "calm srv"
  shows "calm (fst (resume srv k))"
proof (cases "k < length (takings srv)")
  case False
  then show ?thesis using assms by (simp add: resume_def)
next
  case True
  note a = done_calm [OF assms True] checked_calm [OF assms True] written_calm [OF assms True]
  show ?thesis using True a
    by (auto simp: resume_def Let_def split: option.splits)
qed

lemma whole_calm:
  assumes "calm srv" and "\<not> whole_assign_or_claim x" and "\<not> overwrites_status x"
  shows "calm (srv\<lparr>db := fst (step (db srv) x)\<rparr>)"
  using assms step_keeps [of "db srv" x] whole_keeps_idle_writer [of "db srv" _ x]
  by (auto simp: calm_def)

lemma step_ev_calm:
  assumes "calm srv" and "admissible srv e"
  shows "calm (fst (step_ev srv e))"
proof (cases e)
  case (BeginAssign au i w)
  then show ?thesis using begin_assign_calm assms by simp
next
  case (BeginClaim au i)
  then show ?thesis using begin_claim_calm assms by simp
next
  case (Resume k)
  then show ?thesis using resume_calm assms by simp
next
  case (Whole x)
  then show ?thesis using whole_calm assms by simp
qed

lemma play_calm:
  assumes "calm srv" and "serial_per_writer srv evs"
  shows "calm (play srv evs)"
  using assms unfolding play_def
proof (induction evs arbitrary: srv)
  case Nil
  then show ?case by simp
next
  case (Cons e evs)
  have "calm (fst (step_ev srv e))" using step_ev_calm Cons.prems by simp
  then show ?case using Cons.IH [of "fst (step_ev srv e)"] Cons.prems by simp
qed

text \<open>
  Served alone, the three statements of an assign or claim request are the handler
  \<open>proceedAssign\<close>: the same store at the end, no request left in flight, the same status answered.
\<close>

lemma resume_idle: "resume (idle st) k = (idle st, None)"
  by (simp add: resume_def idle_def)

lemma take_alone:
  fixes st i w c
  defines "s1 \<equiv> begin_take (idle st) i w c"
  defines "s2 \<equiv> resume (fst s1) 0"
  defines "s3 \<equiv> resume (fst s2) 0"
  shows "fst s3 = idle (fst (proceedAssign st i w)) \<and>
         map status_of (List.map_filter id [snd s1, snd s2, snd s3])
           = [status_of (snd (proceedAssign st i w))]"
proof (cases "active_order st w = None")
  case False
  then have "s1 = (idle st, Some (Json 400 (if c then ''You already have an active order''
                               else ''Writer already has an active order'')))"
    unfolding s1_def by (simp add: begin_take_def idle_def)
  then show ?thesis using False unfolding s3_def s2_def
    by (simp add: resume_idle proceedAssign_def status_of_def List.map_filter_simps)
next
  case free: True
  let ?t = "\<lparr>tk_writer = w, tk_order = i, tk_checked = False, tk_claim = c\<rparr>"
  have s1: "s1 = (\<lparr>db = st, takings = [?t]\<rparr>, None)"
    unfolding s1_def using free by (simp add: begin_take_def idle_def)
  show ?thesis
  proof (cases "order_by_id st i")
    case None
    then have "s2 = (idle st, Some (Json 404 ''Order not found''))"
      unfolding s2_def s1 by (simp add: resume_def drop_taking_def idle_def Let_def)
    then show ?thesis using free None s1 unfolding s3_def
      by (simp add: resume_idle proceedAssign_def status_of_def List.map_filter_simps)
  next
    case (Some r)
    show ?thesis
    proof (cases "truthy_int (writer_id r) \<or> status r \<noteq> Some ''Pending Assignment''")
      case True
      then have "fst s2 = idle st \<and> (\<exists>m. snd s2 = Some (Json 400 m))"
        unfolding s2_def s1 using Some by (auto simp: resume_def drop_taking_def idle_def Let_def)
      then obtain m where "s2 = (idle st, Some (Json 400 m))" by (cases s2) auto
      then show ?thesis using free Some True s1 unfolding s3_def
        by (auto simp: resume_idle proceedAssign_def status_of_def List.map_filter_simps)
    next
      case ok: False
      have s2: "s2 = (\<lparr>db = st, takings = [?t\<lparr>tk_checked := True\<rparr>]\<rparr>, None)"
        unfolding s2_def s1 using Some ok by (simp add: resume_def drop_taking_def Let_def)
      show ?thesis
      proof (cases "fk_user st (Some w)")
        case False
        then have "fst s3 = idle st \<and> (\<exists>m. snd s3 = Some (Json 500 m))"
          unfolding s3_def s2 using Some
          by (auto simp: resume_def drop_taking_def idle_def Let_def)
        then show ?thesis using free Some ok False s1 s2
          by (auto simp: proceedAssign_def status_of_def List.map_filter_simps)
      next
        case True
        then have "fst s3 = idle (update_order i
                      (\<lambda>r. r\<lparr>writer_id := Some w, status := Some ''In Progress''\<rparr>) st) \<and>
                   (\<exists>m. snd s3 = Some (Json 200 m))"
          unfolding s3_def s2 by (auto simp: resume_def drop_taking_def idle_def Let_def)
        then show ?thesis using free Some ok True s1 s2
          by (auto simp: proceedAssign_def status_of_def List.map_filter_simps)
      qed
    qed
  qed
qed

text \<open>
  C5, as the specification states it, fails in two ways. Served one after the other,
  the writer (user 2) claims order 1, submits it, claims order 2, and update-status sets
  order 1 back to \<open>In Progress\<close>: every request is answered with success and the
  writer has two orders in progress. And two claims of the writer for orders 1 and 2
  that overlap both pass the active-order query before either writes: both are answered
  with success, and again the writer has two orders in progress.
\<close>

theorem two_orders_in_progress:
  "answers fresh_store double_booking = [200, 200, 200, 200, 200, 200] \<and>
   length (filter (is_active_for 2) (orders (run fresh_store booking))) = 1 \<and>
   length (filter (is_active_for 2) (orders (run fresh_store double_booking))) = 2 \<and>
   replies (idle fresh_store) overlapping_claims = [200, 200, 200, 200] \<and>
   length (filter (is_active_for 2) (orders (db (play (idle fresh_store) overlapping_claims)))) = 2"
  by code_simp

text \<open>
  C5, amended. In a store whose order ids are distinct, if every writer has at most one
  order in progress, then so it is after every schedule of the statements of create
  order, assign, claim, submit work, deliver, initiate payment, payment confirmation
  (timer or callback) and delete order, however they interleave, provided that no assign
  or claim request for a writer begins while another assign or claim request for the
  same writer is in flight. Left out: update status and the admin order update, which
  write the caller's status and writer to the row without any check, and assign or claim
  requests for one writer that overlap.
\<close>

theorem single_active_kept_serial_per_writer:
  assumes "single_active st" and "orders_keyed st"
    and "serial_per_writer (idle st) evs"
  shows "single_active (db (play (idle st) evs))"
proof -
  have "calm (idle st)" using assms(1,2) by (simp add: calm_def idle_def)
  then have "calm (play (idle st) evs)" using assms(3) by (rule play_calm)
  then show ?thesis by (simp add: calm_def)
qed

theorem single_active_kept_serial_per_writer_witness:
  "single_active fresh_store \<and> orders_keyed fresh_store \<and>
   serial_per_writer (idle fresh_store) successive_claims \<and>
   replies (idle fresh_store) successive_claims = [200, 200, 200, 200, 400] \<and>
   single_active (db (play (idle fresh_store) successive_claims))"
proof -
  have a: "single_active fresh_store" by (simp add: single_active_def fresh_store_def)
  have b: "orders_keyed fresh_store" by (simp add: orders_keyed_def fresh_store_def)
  have c: "serial_per_writer (idle fresh_store) successive_claims" by code_simp
  have d: "replies (idle fresh_store) successive_claims = [200, 200, 200, 200, 400]" by code_simp
  from single_active_kept_serial_per_writer [OF a b c] a b c d show ?thesis by simp
qed

subsection \<open>The payment status\<close>

lemma find_append_first:
  "find P (xs @ ys) = (case find P xs of None \<Rightarrow> find P ys | Some x \<Rightarrow> Some x)"
  by (induction xs) auto

lemma find_filter_keep:
  assumes "\<And>x. P x \<Longrightarrow> Q x"
  shows "find P (filter Q xs) = find P xs"
  using assms by (induction xs) auto

lemma create_payment:
  assumes "order_by_id st i = Some r" and "order_by_id (fst (create_order st rq)) i = Some r'"
  shows "r' = r"
  using assms
  by (auto simp: create_order_def Let_def order_by_id_def find_append_first split: if_splits)

lemma delete_payment:
  assumes "order_by_id st i = Some r" and "order_by_id (fst (delete_order st au j)) i = Some r'"
  shows "r' = r"
proof (cases "fst (delete_order st au j) = st")
  case True
  then show ?thesis using assms by simp
next
  case False
  then obtain k where k: "j = Some k"
    and del: "fst (delete_order st au j) = st\<lparr>orders := filter (\<lambda>r. o_id r \<noteq> k) (orders st)\<rparr>"
    by (auto simp: delete_order_def split: option.splits)
  have "i \<noteq> k"
  proof
    assume "i = k"
    then have "find (\<lambda>r. o_id r = i) (filter (\<lambda>r. o_id r \<noteq> k) (orders st)) = None"
      by (simp add: find_None_iff)
    then show False using assms(2) del by (simp add: order_by_id_def)
  qed
  then have "find (\<lambda>r. o_id r = i) (filter (\<lambda>r. o_id r \<noteq> k) (orders st))
             = find (\<lambda>r. o_id r = i) (orders st)"
    by (intro find_filter_keep) simp
  then show ?thesis using assms del by (simp add: order_by_id_def)
qed

lemma step_payment:
  assumes "\<not> overwrites_payment x"
    and look: "order_by_id st i = Some r" and look': "order_by_id (fst (step st x)) i = Some r'"
  shows "payment_status r' = payment_status r \<or> payment_status r' = Some ''paid''"
proof (cases x)
  case (OpCreate rq)
  then show ?thesis using create_payment [OF look] look' by simp
next
  case (OpAssign au j w)
  then show ?thesis using look look'
    by (auto simp: assign_def proceedAssign_def split: option.splits if_splits
             simp: order_by_id_update)
next
  case (OpClaim au j)
  then show ?thesis using look look'
    by (auto simp: claim_def Let_def split: option.splits if_splits
             simp: order_by_id_update)
next
  case (OpUpdateStatus j s)
  then show ?thesis using look look'
    by (auto simp: update_status_def split: option.splits if_splits
             simp: order_by_id_update)
next
  case (OpSubmitWork j f)
  then show ?thesis using look look'
    by (auto simp: submit_work_def split: option.splits if_splits
             simp: order_by_id_update)
next
  case (OpSendToClient au j)
  then show ?thesis using look look'
    by (auto simp: send_to_client_def split: option.splits if_splits
             simp: order_by_id_update)
next
  case (OpAdminUpdate au j p)
  then show ?thesis using assms(1) by simp
next
  case (OpInitiate env rq)
  then show ?thesis using assms(1) by simp
next
  case (OpSimulatedConfirm j ref)
  then show ?thesis using look look'
    by (auto simp: markOrderPaid_def order_by_id_update split: if_splits)
next
  case (OpCallback q body now)
  then show ?thesis using look look'
    by (auto simp: payments_callback_def markOrderPaid_def
             split: callback_body.splits option.splits if_splits
             simp: order_by_id_update)
next
  case (OpDelete au j)
  then show ?thesis using delete_payment [OF look] look' by simp
qed

text \<open>
  C6, as the specification states it, fails: /api/payments/initiate writes \<open>pending\<close> whatever the
  order's payment status is. Order 1 is created, paid through the simulation, and a
  second initiation takes it from \<open>paid\<close> back to \<open>pending\<close>.
\<close>

theorem paid_back_to_pending:
  "answers fresh_store paying_again = [200, 200, 200, 200] \<and>
   map_option payment_status (order_by_id (run fresh_store paying) 1) = Some (Some ''paid'') \<and>
   map_option payment_status (order_by_id (run fresh_store paying_again) 1)
     = Some (Some ''pending'') \<and>
   regresses (Some ''paid'') (Some ''pending'')"
  by code_simp

text \<open>
  C6, amended. Create order, assign, claim, update status, submit work, deliver, payment
  confirmation (timer or callback) and delete order never make the payment status of an
  order regress: each leaves it as it was or sets it to \<open>paid\<close>. Initiating a payment
  sets it to \<open>pending\<close> without looking at the current value, and the admin order
  update writes whatever value the request carries.
\<close>

theorem payment_status_kept_or_paid:
  assumes "\<not> overwrites_payment x"
    and "order_by_id st i = Some r" and "order_by_id (fst (step st x)) i = Some r'"
  shows "(payment_status r' = payment_status r \<or> payment_status r' = Some ''paid'') \<and>
         \<not> regresses (payment_status r) (payment_status r')"
  using step_payment [OF assms] by (auto simp: regresses_def)

theorem payment_status_kept_or_paid_witness:
  "\<not> overwrites_payment (OpSimulatedConfirm 1 ''SIM-175-7'') \<and>
   order_by_id (store_with [essay_submitted]) 1 = Some essay_submitted \<and>
   order_by_id (fst (step (store_with [essay_submitted]) (OpSimulatedConfirm 1 ''SIM-175-7''))) 1
     = Some essay_paid \<and>
   \<not> regresses (payment_status essay_submitted) (payment_status essay_paid)"
proof -
  have a: "\<not> overwrites_payment (OpSimulatedConfirm 1 ''SIM-175-7'')" by simp
  have b: "order_by_id (store_with [essay_submitted]) 1 = Some essay_submitted"
    by (simp add: order_by_id_def example_defs)
  have c: "order_by_id (fst (step (store_with [essay_submitted])
             (OpSimulatedConfirm 1 ''SIM-175-7''))) 1 = Some essay_paid"
    by (simp add: order_by_id_def markOrderPaid_def update_order_def example_defs)
  from payment_status_kept_or_paid [OF a b c] a b c show ?thesis by simp
qed

subsection \<open>Paths\<close>

lemma split_path_not_Nil: "split_path p \<noteq> []"
  by (induction p) (auto split: list.splits)

lemma split_path_append:
  "split_path (a @ CHR ''/'' # b) = split_path a @ split_path b"
proof (induction a)
  case Nil
  then show ?case by simp
next
  case (Cons c a)
  then show ?case using split_path_not_Nil [of a]
    by (cases "split_path a") auto
qed

lemma split_path_segment: "CHR ''/'' \<notin> set p \<Longrightarrow> split_path p = [p]"
  by (induction p) auto

lemma dotfile_path_join:
  "dotfile_path (path_join d f) = (dotfile_path d \<or> dotfile_path f)"
  by (simp add: dotfile_path_def path_join_def split_path_append)

lemma plain_name_no_dotfile: "plain_name n \<Longrightarrow> \<not> dotfile_path n"
  by (cases n) (auto simp: plain_name_def dotfile_path_def split_path_segment dot_segment_def
                     split: list.splits)

lemma dirs_no_dotfile:
  "\<not> dotfile_path uploadDir" "\<not> dotfile_path previewDir" "\<not> dotfile_path ''uploads''"
  by code_simp+




text \<open>The decimal rendering of an integer has digits and a sign only.\<close>

lemma digit_char_digit: "d < 10 \<Longrightarrow> digit_char d \<in> set ''0123456789''"
  unfolding digit_char_def by (rule nth_mem) simp

lemma nat_digits_digits: "set (nat_digits n) \<subseteq> set ''0123456789'' \<and> nat_digits n \<noteq> []"
proof (induction n rule: nat_digits.induct)
  case (1 n)
  show ?case
  proof (cases "n < 10")
    case True
    then show ?thesis using digit_char_digit [of n] by (subst (1 2) nat_digits.simps) simp
  next
    case False
    have "n mod 10 < 10" by simp
    then have "digit_char (n mod 10) \<in> set ''0123456789''" by (rule digit_char_digit)
    then show ?thesis using False "1.IH"
      by (subst (1 2) nat_digits.simps) simp
  qed
qed

lemma int_str_chars:
  "CHR ''/'' \<notin> set (int_str i) \<and> int_str i \<noteq> [] \<and> hd (int_str i) \<noteq> CHR ''.''"
proof -
  have a: "CHR ''/'' \<notin> set (nat_digits n) \<and> nat_digits n \<noteq> [] \<and> hd (nat_digits n) \<noteq> CHR ''.''" for n
  proof -
    have s: "set (nat_digits n) \<subseteq> set ''0123456789''" and ne: "nat_digits n \<noteq> []"
      using nat_digits_digits [of n] by simp_all
    have "hd (nat_digits n) \<in> set ''0123456789''" using s ne by (meson hd_in_set subsetD)
    then show ?thesis using s ne by auto
  qed
  show ?thesis using a [of "nat (- i)"] a [of "nat i"] by (simp add: int_str_def)
qed

lemma artifact_no_dotfile:
  "\<not> dotfile_path (path_join previewDir (int_str i @ ''.pdf''))"
proof -
  have "plain_name (int_str i @ ''.pdf'')"
    using int_str_chars [of i] by (cases "int_str i") (auto simp: plain_name_def)
  then show ?thesis
    by (simp add: dotfile_path_join dirs_no_dotfile plain_name_no_dotfile)
qed

lemma sendable_artifact:
  "sendable fs (path_join previewDir (int_str i @ ''.pdf'')) =
     existsSync fs (path_join previewDir (int_str i @ ''.pdf''))"
  by (simp add: sendable_def artifact_no_dotfile)

subsection \<open>The access decision of /api/preview\<close>

lemma preview_decides:
  "access_of (preview fs st rq) = decide (access_inputs st rq) (disk_facts fs st rq)"
proof (cases "pq_orderId rq")
  case None
  then show ?thesis
    by (simp add: preview_def access_inputs_def requested_order_def access_of_def disk_facts_def)
next
  case oid: (Some orderId)
  show ?thesis
  proof (cases "requester_of rq")
    case None
    then show ?thesis using oid
      by (cases "disk_facts fs st rq")
         (simp add: preview_def access_inputs_def access_of_def truthy_int_def)
  next
    case rid: (Some requesterId)
    show ?thesis
    proof (cases "requesterId = 0")
      case True
      then show ?thesis using oid rid
        by (cases "disk_facts fs st rq")
           (simp add: preview_def access_inputs_def access_of_def truthy_int_def)
    next
      case nz: False
      show ?thesis
      proof (cases "order_by_id st orderId")
        case None
        then show ?thesis using oid rid nz
          by (simp add: preview_def access_inputs_def requested_order_def access_of_def
                truthy_int_def disk_facts_def)
      next
        case ord: (Some r)
        show ?thesis
        proof (cases "truthy_str (submission_file r)")
          case False
          then show ?thesis using oid rid nz ord
            by (cases "disk_facts fs st rq")
               (auto simp: preview_def access_inputs_def requested_order_def access_of_def
                  truthy_int_def truthy_str_def select_submission_def split: option.splits)
        next
          case present: True
          then obtain sf where sf: "submission_file r = Some sf" "sf \<noteq> []"
            by (auto simp: truthy_str_def split: option.splits)
          have facts: "disk_facts fs st rq =
              (sendable fs (path_join uploadDir (basename sf)),
               existsSync fs (path_join uploadDir (basename sf)),
               existsSync fs (path_join previewDir (int_str orderId @ ''.pdf'')))"
            using oid ord sf by (simp add: disk_facts_def)
          show ?thesis
          proof (cases "user_by_id st requesterId")
            case None
            then show ?thesis using oid rid nz ord sf facts
              by (simp add: preview_def access_inputs_def requested_order_def
                    requesting_user_def access_of_def truthy_int_def truthy_str_def
                    select_submission_def)
          next
            case usr: (Some u)
            have uid: "u_id u = requesterId" using usr by (rule user_by_id_id)
            show ?thesis using oid rid nz ord sf usr uid facts
              by (auto simp: preview_def access_inputs_def requested_order_def
                    requesting_user_def access_of_def truthy_int_def truthy_str_def
                    select_submission_def sr_payment_status_def Let_def sendable_artifact
                    sendFile_def preview_headers_def stream_headers_def)
          qed
        qed
      qed
    qed
  qed
qed

text \<open>
  C1. Rule 4 of the decision table gives the client of a paid order the original file in
  full. The handler's query does not select \<open>payment_status\<close>, so its test of
  \<open>order.payment_status\<close> never holds: here order 1 is paid, its client asks, and the
  answer is the restricted inline stream of the original under the preview headers, not
  the file in full.
\<close>

theorem paid_client_gets_preview_only:
  "map_option payment_status (order_by_id (store_with [essay_paid]) 1) = Some (Some ''paid'') \<and>
   map_option client_id (order_by_id (store_with [essay_paid]) 1) = Some (Some (t_id client_token)) \<and>
   preview [essay_file] (store_with [essay_paid]) client_preview_req
     = Pipe ''uploads/171-42.docx'' stream_headers \<and>
   access_of (preview [essay_file] (store_with [essay_paid]) client_preview_req) = Preview"
  by code_simp

text \<open>
  C10, as the specification states it, fails: the same unpaid order and the same client,
  with the original file on disk and with neither the original nor a preview artifact on
  disk, get a preview in one case and 404 "File not found" in the other.
\<close>

theorem outcome_depends_on_disk:
  "access_of (preview [essay_file] (store_with [essay_submitted]) client_preview_req) = Preview \<and>
   preview [] (store_with [essay_submitted]) client_preview_req = Json 404 ''File not found'' \<and>
   access_of (preview [] (store_with [essay_submitted]) client_preview_req) = Deny"
  by code_simp

text \<open>
  C10, amended. The outcome of a preview request (deny, preview or full) is a function of
  the six inputs (requester role, requester id, the order's client_id, writer_id and
  payment_status, presence of a submission file) together with three facts about the
  disk: whether \<open>res.sendFile\<close> can deliver the order's original file (it exists and
  its name is no dotfile), whether the original file exists, and whether the order's
  preview artifact exists. Two requests that agree on these get the same outcome,
  whatever else the stores and disks hold.
\<close>

theorem access_decision_function:
  assumes "access_inputs st1 rq1 = access_inputs st2 rq2"
    and "disk_facts fs1 st1 rq1 = disk_facts fs2 st2 rq2"
  shows "access_of (preview fs1 st1 rq1) = access_of (preview fs2 st2 rq2)"
  using assms by (simp add: preview_decides)

theorem access_decision_function_witness:
  "access_inputs (store_with [essay_submitted]) admin_preview_req
     = access_inputs (store_with [essay_submitted\<lparr>title := ''Thesis''\<rparr>]) admin_preview_req \<and>
   disk_facts [essay_file] (store_with [essay_submitted]) admin_preview_req
     = disk_facts [essay_file, ''uploads/172-43.docx'']
         (store_with [essay_submitted\<lparr>title := ''Thesis''\<rparr>]) admin_preview_req \<and>
   access_of (preview [essay_file] (store_with [essay_submitted]) admin_preview_req)
     = access_of (preview [essay_file, ''uploads/172-43.docx'']
         (store_with [essay_submitted\<lparr>title := ''Thesis''\<rparr>]) admin_preview_req) \<and>
   access_of (preview [essay_file] (store_with [essay_submitted]) admin_preview_req) = Full"
proof -
  have a: "access_inputs (store_with [essay_submitted]) admin_preview_req
     = access_inputs (store_with [essay_submitted\<lparr>title := ''Thesis''\<rparr>]) admin_preview_req"
    by code_simp
  have b: "disk_facts [essay_file] (store_with [essay_submitted]) admin_preview_req
     = disk_facts [essay_file, ''uploads/172-43.docx'']
         (store_with [essay_submitted\<lparr>title := ''Thesis''\<rparr>]) admin_preview_req"
    by code_simp
  have c: "access_of (preview [essay_file] (store_with [essay_submitted]) admin_preview_req)
     = Full"
    by code_simp
  from access_decision_function [OF a b] a b c show ?thesis by simp
qed

subsection \<open>The legacy path /uploads/:filename\<close>








subsection \<open>Static serving of /uploads\<close>




subsection \<open>Email verification\<close>

lemma latest_None: "latest xs = None \<longleftrightarrow> xs = []"
  by (induction xs) (auto split: option.splits)

lemma latest_Some:
  assumes "latest xs = Some x"
  shows "x \<in> set xs \<and> (\<forall>y \<in> set xs. v_created_at y \<le> v_created_at x)"
  using assms
proof (induction xs arbitrary: x)
  case Nil
  then show ?case by simp
next
  case (Cons v vs)
  show ?case
  proof (cases "latest vs")
    case None
    then have "vs = []" by (simp add: latest_None)
    then show ?thesis using Cons.prems by simp
  next
    case (Some b)
    then have b: "b \<in> set vs" "\<forall>y \<in> set vs. v_created_at y \<le> v_created_at b"
      using Cons.IH by simp_all
    show ?thesis
    proof (cases "v_created_at v < v_created_at b")
      case True
      then have "x = b" using Cons.prems Some by simp
      then show ?thesis using b True by auto
    next
      case False
      then have "x = v" using Cons.prems Some by simp
      then show ?thesis using b False by fastforce
    qed
  qed
qed

lemma active_verification_Some:
  assumes "active_verification st e = Some row"
  shows "row \<in> set (email_verifications st) \<and> is_candidate st e row \<and>
         (\<forall>v \<in> set (email_verifications st). is_candidate st e v
              \<longrightarrow> v_created_at v \<le> v_created_at row)"
  using latest_Some [OF assms [unfolded active_verification_def]] by auto

lemma verify_ok:
  assumes "verify_email st email code now = (st1, Json 200 m)"
  shows "\<exists>row. active_verification st (toLowerCase (trim email)) = Some row \<and>
           now \<le> v_expires_at row \<and> v_code row = trim code \<and>
           st1 = approve (v_user_id row) (mark_used (v_id row) st)"
  using assms
  by (auto simp: verify_email_def split: if_splits option.splits)

lemma verify_fail_or_ok:
  "(fst (verify_email st email code now) = st \<and> status_of (snd (verify_email st email code now)) = 400) \<or>
   (\<exists>m. snd (verify_email st email code now) = Json 200 m)"
  by (auto simp: verify_email_def status_of_def split: option.splits)

lemma approve_mark_tables:
  "users (approve u (mark_used vid st)) =
     map (\<lambda>x. if u_id x = u then x\<lparr>u_approved := True\<rparr> else x) (users st)"
  "email_verifications (approve u (mark_used vid st)) =
     map (\<lambda>v. if v_id v = vid then v\<lparr>v_used := True\<rparr> else v) (email_verifications st)"
  by (simp_all add: approve_def mark_used_def)

lemma verify_keeps_approved:
  assumes "\<forall>u \<in> set (users st). u_id u = k \<longrightarrow> u_approved u"
  shows "\<forall>u \<in> set (users (fst (verify_email st email code now))). u_id u = k \<longrightarrow> u_approved u"
  using assms
  by (auto simp: verify_email_def approve_def mark_used_def split: option.splits if_splits)

text \<open>
  C9, as the specification states it, fails when two unused rows of the email hold the
  same code (the six digits are drawn at random for each row): the second attempt with
  the same code redeems the other row and succeeds. Here the resend, a minute after the
  registration, drew the code of the registration.
\<close>

theorem same_code_verifies_twice:
  "map v_code (email_verifications twice_mailed) = [''123456'', ''123456''] \<and>
   snd (verify_email twice_mailed ''new@prowriters.local'' ''123456'' 120000)
     = Json 200 ''Email verified. You may now log in.'' \<and>
   snd (verify_email (fst (verify_email twice_mailed ''new@prowriters.local'' ''123456'' 120000))
          ''new@prowriters.local'' ''123456'' 180000)
     = Json 200 ''Email verified. You may now log in.''"
  by code_simp

text \<open>
  That another unused row holds the code does not make the second attempt succeed: of
  three rows with the codes 111111, 222222 and 111111 the first attempt redeems the
  last, and the second attempt meets the middle row and is refused.
\<close>

lemma other_row_with_code_not_enough:
  "map v_code (email_verifications thrice_mailed) = [''111111'', ''222222'', ''111111''] \<and>
   snd (verify_email thrice_mailed ''new@prowriters.local'' ''111111'' 180000)
     = Json 200 ''Email verified. You may now log in.'' \<and>
   snd (verify_email (fst (verify_email thrice_mailed ''new@prowriters.local'' ''111111'' 180000))
          ''new@prowriters.local'' ''111111'' 240000)
     = Json 400 ''Invalid code''"
  by code_simp

text \<open>
  C9, amended. A successful verify-email call redeems one row: an unused row of the
  email than which no unused row of the email has a later \<open>created_at\<close>; the row is not
  past its expiry and holds the supplied code, and the call marks it used, resets no
  used flag and sets the user's approved flag. So a row that is used or past its expiry
  is never the one redeemed. A second attempt with the same code fails with 400 (no
  active verification, code expired or invalid code) and changes nothing, unless the row
  that the query then selects is another row of the email, unused, not past its expiry
  and holding the same code, which the attempt then redeems; that some other unused row
  holds the code is not enough. In both cases the user remains approved.
\<close>

theorem verification_redeemed_once:
  assumes first: "verify_email st email code now = (st1, Json 200 m)"
    and second: "verify_email st1 email code now' = (st2, r2)"
  shows "\<exists>row \<in> set (email_verifications st).
           (\<forall>v \<in> set (email_verifications st).
               v_email v = v_email row \<and> \<not> v_used v \<and> user_by_id st (v_user_id v) \<noteq> None
                \<longrightarrow> v_created_at v \<le> v_created_at row) \<and>
           v_email row = toLowerCase (trim email) \<and> \<not> v_used row \<and>
           now \<le> v_expires_at row \<and> v_code row = trim code \<and>
           st1 = approve (v_user_id row) (mark_used (v_id row) st) \<and>
           (\<forall>v \<in> set (email_verifications st1). v_id v = v_id row \<longrightarrow> v_used v) \<and>
           list_all2 (\<lambda>v v'. v_id v' = v_id v \<and> (v_used v \<longrightarrow> v_used v'))
             (email_verifications st) (email_verifications st1) \<and>
           (\<exists>u \<in> set (users st1). u_id u = v_user_id row) \<and>
           (\<forall>u \<in> set (users st1). u_id u = v_user_id row \<longrightarrow> u_approved u) \<and>
           (\<forall>u \<in> set (users st2). u_id u = v_user_id row \<longrightarrow> u_approved u) \<and>
           ((st2 = st1 \<and> status_of r2 = 400) \<or>
            (\<exists>other \<in> set (email_verifications st).
                active_verification st1 (toLowerCase (trim email)) = Some other \<and>
                v_id other \<noteq> v_id row \<and> \<not> v_used other \<and> v_email other = v_email row \<and>
                v_code other = v_code row \<and> now' \<le> v_expires_at other \<and>
                st2 = approve (v_user_id other) (mark_used (v_id other) st1)))"
proof -
  let ?e = "toLowerCase (trim email)"
  obtain row where act: "active_verification st ?e = Some row"
    and fresh: "now \<le> v_expires_at row" and code: "v_code row = trim code"
    and st1: "st1 = approve (v_user_id row) (mark_used (v_id row) st)"
    using verify_ok [OF first] by blast
  have mem: "row \<in> set (email_verifications st)" and row: "is_candidate st ?e row"
    and late: "\<forall>v \<in> set (email_verifications st). is_candidate st ?e v
                 \<longrightarrow> v_created_at v \<le> v_created_at row"
    using active_verification_Some [OF act] by simp_all
  have email: "v_email row = ?e" and unused: "\<not> v_used row"
    using row by (simp_all add: is_candidate_def)
  have latest: "\<forall>v \<in> set (email_verifications st).
               v_email v = v_email row \<and> \<not> v_used v \<and> user_by_id st (v_user_id v) \<noteq> None
                \<longrightarrow> v_created_at v \<le> v_created_at row"
    using late email by (simp add: is_candidate_def)
  have used1: "\<forall>v \<in> set (email_verifications st1). v_id v = v_id row \<longrightarrow> v_used v"
    unfolding st1 by (auto simp: approve_mark_tables)
  have kept: "list_all2 (\<lambda>v v'. v_id v' = v_id v \<and> (v_used v \<longrightarrow> v_used v'))
             (email_verifications st) (email_verifications st1)"
    unfolding st1 by (simp add: approve_mark_tables list_all2_map2 list_all2_same)
  obtain u where u: "user_by_id st (v_user_id row) = Some u"
    using row by (auto simp: is_candidate_def)
  then have "u \<in> set (users st)" and "u_id u = v_user_id row"
    unfolding user_by_id_def by (auto simp: find_Some_iff)
  then have "u\<lparr>u_approved := True\<rparr> \<in> set (users st1)"
    unfolding st1 by (force simp: approve_mark_tables)
  moreover have "u_id (u\<lparr>u_approved := True\<rparr>) = v_user_id row"
    using \<open>u_id u = v_user_id row\<close> by simp
  ultimately have ex1: "\<exists>u \<in> set (users st1). u_id u = v_user_id row"
    by (rule rev_bexI)
  have app1: "\<forall>u \<in> set (users st1). u_id u = v_user_id row \<longrightarrow> u_approved u"
    unfolding st1 by (auto simp: approve_mark_tables)
  have st2: "st2 = fst (verify_email st1 email code now')"
    and r2: "r2 = snd (verify_email st1 email code now')"
    using second by simp_all
  have app2: "\<forall>u \<in> set (users st2). u_id u = v_user_id row \<longrightarrow> u_approved u"
    unfolding st2 using app1 by (rule verify_keeps_approved)
  have again: "(st2 = st1 \<and> status_of r2 = 400) \<or>
            (\<exists>other \<in> set (email_verifications st).
                active_verification st1 ?e = Some other \<and>
                v_id other \<noteq> v_id row \<and> \<not> v_used other \<and> v_email other = v_email row \<and>
                v_code other = v_code row \<and> now' \<le> v_expires_at other \<and>
                st2 = approve (v_user_id other) (mark_used (v_id other) st1))"
  proof (cases "\<exists>m'. r2 = Json 200 m'")
    case False
    then show ?thesis using verify_fail_or_ok [of st1 email code now'] st2 r2 by auto
  next
    case True
    then obtain m' where "verify_email st1 email code now' = (st2, Json 200 m')"
      using second by auto
    from verify_ok [OF this] obtain other
      where act2: "active_verification st1 ?e = Some other"
        and fresh2: "now' \<le> v_expires_at other" and code2: "v_code other = trim code"
        and st2': "st2 = approve (v_user_id other) (mark_used (v_id other) st1)"
      by blast
    have mem2: "other \<in> set (email_verifications st1)" and cand2: "is_candidate st1 ?e other"
      using active_verification_Some [OF act2] by simp_all
    have unused2: "\<not> v_used other" and email2: "v_email other = ?e"
      using cand2 by (simp_all add: is_candidate_def)
    from mem2 obtain v where v: "v \<in> set (email_verifications st)"
      and other: "other = (if v_id v = v_id row then v\<lparr>v_used := True\<rparr> else v)"
      unfolding st1 by (auto simp: approve_mark_tables)
    have "v_id v \<noteq> v_id row" using other unused2 by (auto split: if_splits)
    then have "other = v" using other by simp
    then have "other \<in> set (email_verifications st) \<and>
               active_verification st1 ?e = Some other \<and> v_id other \<noteq> v_id row \<and>
               \<not> v_used other \<and> v_email other = v_email row \<and> v_code other = v_code row \<and>
               now' \<le> v_expires_at other \<and>
               st2 = approve (v_user_id other) (mark_used (v_id other) st1)"
      using v \<open>v_id v \<noteq> v_id row\<close> unused2 email2 email code code2 fresh2 act2 st2' by simp
    then show ?thesis by blast
  qed
  show ?thesis
    using mem latest email unused fresh code st1 used1 kept ex1 app1 app2 again by blast
qed

theorem verification_redeemed_once_witness:
  "verify_email signup_store ''new@prowriters.local'' ''123456'' 120000
     = (approve 5 (mark_used 1 signup_store), Json 200 ''Email verified. You may now log in.'') \<and>
   verify_email (approve 5 (mark_used 1 signup_store)) ''new@prowriters.local'' ''123456'' 180000
     = (approve 5 (mark_used 1 signup_store), Json 400 ''No active verification found'') \<and>
   map u_approved (filter (\<lambda>u. u_id u = 5) (users (approve 5 (mark_used 1 signup_store)))) = [True]"
proof -
  let ?st1 = "approve 5 (mark_used 1 signup_store)"
  have first: "verify_email signup_store ''new@prowriters.local'' ''123456'' 120000
     = (?st1, Json 200 ''Email verified. You may now log in.'')" by code_simp
  have second: "verify_email ?st1 ''new@prowriters.local'' ''123456'' 180000
     = (?st1, Json 400 ''No active verification found'')" by code_simp
  have third: "map u_approved (filter (\<lambda>u. u_id u = 5) (users ?st1)) = [True]" by code_simp
  from verification_redeemed_once [OF first second] first second third
  show ?thesis by simp
qed

end
